theory Spec2Isabelle
  imports Main
begin

section \<open>Data model of DelegateAsyncWait.h\<close>

text \<open>
  Pointers are addresses; \<open>null\<close> is the C++ null pointer (\<open>m_thread == 0\<close>).
  \<open>WAIT_INFINITE\<close> is the constant of the header.
\<close>

type_synonym addr = nat

definition null :: addr where
  "null = 0"

definition WAIT_INFINITE :: int where
  "WAIT_INFINITE = - 1"

text \<open>The two threads that take part in one call.\<close>

datatype tid = Caller | Target

text \<open>
  \<open>LOCK m_lock\<close> with \<open>LockGuard\<close>: a mutex, modelled by its owner.
  \<open>LockGuard::Create\<close> leaves it \<open>Unlocked\<close>; the guard's constructor acquires it and
  its destructor releases it.
\<close>

datatype lock = Unlocked | Held tid

text \<open>
  Modelled from the spec: \<open>Semaphore\<close> (Semaphore.h is not part of the sources). Section 4.1:
  a counting wait signal; \<open>reset\<close> clears any pending signal, \<open>signal\<close> persists until it
  is consumed, \<open>wait\<close> returns true if signaled before the deadline and false on timeout.
  \<open>sema_Wait b\<close> is the effect of a wait that returns \<open>b\<close>: a successful wait
  consumes one signal, a timed-out wait leaves the semaphore as it is.
  \<open>sema_Wait_returns timeout b\<close> says when a wait can return \<open>b\<close>: true only if a signal
  is pending, false only if the timeout is not \<open>WAIT_INFINITE\<close> (section 4.4: the infinite
  sentinel blocks forever).
\<close>

record semaphore =
  created :: bool
  signals :: nat

definition Semaphore :: semaphore where
  "Semaphore = \<lparr>created = False, signals = 0\<rparr>"

definition sema_Create :: "semaphore \<Rightarrow> semaphore" where
  "sema_Create sm = sm\<lparr>created := True\<rparr>"

definition sema_Reset :: "semaphore \<Rightarrow> semaphore" where
  "sema_Reset sm = sm\<lparr>signals := 0\<rparr>"

definition sema_Signal :: "semaphore \<Rightarrow> semaphore" where
  "sema_Signal sm = sm\<lparr>signals := Suc (signals sm)\<rparr>"

definition sema_Wait :: "bool \<Rightarrow> semaphore \<Rightarrow> semaphore" where
  "sema_Wait b sm = (if b then sm\<lparr>signals := signals sm - 1\<rparr> else sm)"

definition sema_Wait_returns :: "int \<Rightarrow> bool \<Rightarrow> semaphore \<Rightarrow> bool" where
  "sema_Wait_returns timeout b sm =
     (if b then signals sm \<noteq> 0 else timeout \<noteq> WAIT_INFINITE)"

text \<open>
  Modelled from the spec: the Callable Target held by the base classes \<open>DelegateMember\<close> and
  \<open>DelegateFree\<close> (Delegate.h is not part of the sources). Section 3: either a non-owning
  reference to an object with a pointer to member function, or a plain function reference;
  equality is structural (same object reference, same function identity). Functions are
  named by an identity; what the bound code computes is the parameter \<open>fn\<close> of the
  operations below.
\<close>

datatype callable = MemberFn addr nat | FreeFn nat

definition callable_eq :: "callable \<Rightarrow> callable \<Rightarrow> bool" where
  "callable_eq a b = (a = b)"

text \<open>
  One delegate object: the base sub-object (\<open>m_callable\<close>), the fields of
  \<open>DelegateMemberAsyncWaitBase\<close> / \<open>DelegateFreeAsyncWaitBase\<close> in their order, and
  \<open>m_retVal\<close> of the derived class. No constructor initialises \<open>m_retVal\<close>: \<open>None\<close> is
  the indeterminate value.
\<close>

record 'r delegate =
  m_callable :: callable
  m_thread :: addr
  m_success :: bool
  m_timeout :: int
  m_sema :: semaphore
  m_lock :: lock
  m_refCnt :: int
  m_retVal :: "'r option"

text \<open>
  The message of one call: \<open>DelegateMsg1<Param1>(delegate, p1)\<close>. For the specialisations
  without parameter (\<open>DelegateMsgBase(delegate)\<close>) the parameter type is \<open>unit\<close>.
\<close>

record 'p msg =
  msg_invoker :: addr
  msg_param :: 'p

section \<open>Construction, binding, copying, equality\<close>

definition Bind :: "callable \<Rightarrow> addr \<Rightarrow> 'r delegate \<Rightarrow> 'r delegate" where
  "Bind target thread d = d\<lparr>m_thread := thread, m_callable := target\<rparr>"

definition DelegateAsyncWait :: "callable \<Rightarrow> addr \<Rightarrow> int \<Rightarrow> 'r delegate" where
  "DelegateAsyncWait target thread timeout =
     Bind target thread
       \<lparr>m_callable = target, m_thread = null, m_success = False, m_timeout = timeout,
        m_sema = Semaphore, m_lock = Unlocked, m_refCnt = 0, m_retVal = None\<rparr>"

definition Swap :: "'r delegate \<Rightarrow> 'r delegate \<Rightarrow> 'r delegate" where
  "Swap s d = d\<lparr>m_thread := m_thread s, m_timeout := m_timeout s, m_success := m_success s\<rparr>"

text \<open>
  The copy constructor: the base sub-object is copied, \<open>m_refCnt(0)\<close>, the lock is created,
  the semaphore is default constructed, then \<open>Swap(rhs)\<close>. The three fields that \<open>Swap\<close>
  assigns have no value before it. The derived class's implicit copy constructor copies
  \<open>m_retVal\<close>.
\<close>

definition copy_ctor :: "'r delegate \<Rightarrow> 'r delegate" where
  "copy_ctor rhs =
     Swap rhs
       \<lparr>m_callable = m_callable rhs, m_thread = null, m_success = False, m_timeout = 0,
        m_sema = Semaphore, m_lock = Unlocked, m_refCnt = 0, m_retVal = m_retVal rhs\<rparr>"

definition Clone :: "'r delegate \<Rightarrow> 'r delegate" where
  "Clone d = copy_ctor d"

text \<open>
  \<open>operator==\<close> on two delegates of the same specialisation (the \<open>dynamic_cast\<close> succeeds):
  the thread pointers are compared, then the base class's equality.
\<close>

definition op_eq :: "'r delegate \<Rightarrow> 'r delegate \<Rightarrow> bool" where
  "op_eq lhs rhs = (m_thread lhs = m_thread rhs \<and> callable_eq (m_callable lhs) (m_callable rhs))"

definition IsSuccess :: "'r delegate \<Rightarrow> bool" where
  "IsSuccess d = m_success d"

definition GetRetVal :: "'r delegate \<Rightarrow> 'r option" where
  "GetRetVal d = m_retVal d"

section \<open>One call: the caller in operator(), the target in DelegateInvoke\<close>

text \<open>
  What a thread does to the shared objects, recorded in program order with the state of
  the lock of the delegate it acts on at that moment.
\<close>

datatype ('p, 'r) oper =
    Op_clone addr
  | Op_set_ref int
  | Op_sema_create
  | Op_sema_reset
  | Op_new_msg addr
  | Op_dispatch addr addr
  | Op_wait int bool
  | Op_read_ret
  | Op_lock
  | Op_dec_ref int
  | Op_unlock
  | Op_delete_msg addr
  | Op_delete_delegate addr
  | Op_get_param
  | Op_test_ref int
  | Op_invoke 'p 'r
  | Op_store_ret
  | Op_signal

text \<open>Where each thread stands in its function.\<close>

datatype cpc =
  C_start | C_wait | C_copy | C_lock | C_dec | C_unlock | C_delete | C_return | C_done

datatype tpc =
  T_idle | T_lock | T_check | T_signal | T_dec | T_unlock | T_delete | T_done

text \<open>
  The state of one call: the heap of delegates (the caller's own object at \<open>c_this\<close>, the
  clone at \<open>c_delegate\<close>), the heap of messages, the next address \<open>new\<close> returns, the
  target thread's queue of (thread, message), the record of operations, a flag for a
  dereference of a deleted object, and the locals of the two functions.
\<close>

record ('p, 'r) sys =
  delegates :: "addr \<Rightarrow> 'r delegate option"
  msgs :: "addr \<Rightarrow> 'p msg option"
  next_addr :: addr
  queue :: "(addr \<times> addr) list"
  trace :: "(tid \<times> ('p, 'r) oper \<times> lock) list"
  fault :: bool
  c_this :: addr
  c_p1 :: 'p
  c_delegate :: addr
  c_msg :: addr
  c_deleteData :: bool
  c_pc :: cpc
  c_ret :: "'r option"
  t_this :: addr
  t_msg :: addr
  t_param1 :: "'p option"
  t_deleteData :: bool
  t_pc :: tpc

definition lock_at :: "('p, 'r) sys \<Rightarrow> addr \<Rightarrow> lock" where
  "lock_at s a = (case delegates s a of None \<Rightarrow> Unlocked | Some d \<Rightarrow> m_lock d)"

definition begin_call :: "(addr \<Rightarrow> 'r delegate option) \<Rightarrow> addr \<Rightarrow> addr \<Rightarrow> 'p \<Rightarrow> ('p, 'r) sys" where
  "begin_call ds nxt this p =
     \<lparr>delegates = ds, msgs = Map.empty, next_addr = nxt, queue = [], trace = [],
      fault = False,
      c_this = this, c_p1 = p, c_delegate = null, c_msg = null, c_deleteData = False,
      c_pc = C_start, c_ret = None,
      t_this = null, t_msg = null, t_param1 = None, t_deleteData = False, t_pc = T_idle\<rparr>"

subsection \<open>operator(): the caller thread\<close>

text \<open>
  Entry of \<open>operator()(p1)\<close>. With no target thread the base class's \<open>operator()\<close> runs the
  bound callable and its result is returned. Otherwise: \<open>Clone()\<close>, \<open>m_refCnt = 2\<close>,
  \<open>m_sema.Create()\<close>, \<open>m_sema.Reset()\<close>, the new message, \<open>DispatchDelegate(msg)\<close>.
  A dereference of an address that holds no object sets \<open>fault\<close>, here and below.
\<close>

definition caller_start :: "(callable \<Rightarrow> 'p \<Rightarrow> 'r) \<Rightarrow> ('p, 'r) sys \<Rightarrow> ('p, 'r) sys" where
  "caller_start fn s =
     (case delegates s (c_this s) of
        None \<Rightarrow> s\<lparr>fault := True\<rparr>
      | Some this \<Rightarrow>
          if m_thread this = null then
            s\<lparr>trace := trace s @
                 [(Caller, Op_invoke (c_p1 s) (fn (m_callable this) (c_p1 s)), m_lock this)],
              c_ret := Some (fn (m_callable this) (c_p1 s)),
              c_pc := C_done\<rparr>
          else
            s\<lparr>delegates := (delegates s)(next_addr s \<mapsto>
                 (Clone this)\<lparr>m_refCnt := 2,
                               m_sema := sema_Reset (sema_Create (m_sema (Clone this)))\<rparr>),
              msgs := (msgs s)(Suc (next_addr s) \<mapsto>
                 \<lparr>msg_invoker = next_addr s, msg_param = c_p1 s\<rparr>),
              next_addr := next_addr s + 2,
              queue := queue s @ [(m_thread this, Suc (next_addr s))],
              trace := trace s @
                 [(Caller, Op_clone (next_addr s), Unlocked),
                  (Caller, Op_set_ref 2, Unlocked),
                  (Caller, Op_sema_create, Unlocked),
                  (Caller, Op_sema_reset, Unlocked),
                  (Caller, Op_new_msg (Suc (next_addr s)), Unlocked),
                  (Caller, Op_dispatch (m_thread this) (Suc (next_addr s)), Unlocked)],
              c_delegate := next_addr s,
              c_msg := Suc (next_addr s),
              c_pc := C_wait\<rparr>)"

text \<open>
  \<open>this->m_success = delegate->m_sema.Wait(this->m_timeout)\<close>, for a wait that returns
  \<open>b\<close>; \<open>caller_wait_returns b\<close> says whether the wait can return \<open>b\<close> now.
\<close>

definition caller_wait_returns :: "bool \<Rightarrow> ('p, 'r) sys \<Rightarrow> bool" where
  "caller_wait_returns b s =
     (case delegates s (c_this s) of
        None \<Rightarrow> True
      | Some this \<Rightarrow>
          (case delegates s (c_delegate s) of
             None \<Rightarrow> True
           | Some cl \<Rightarrow> sema_Wait_returns (m_timeout this) b (m_sema cl)))"

definition caller_wait :: "bool \<Rightarrow> ('p, 'r) sys \<Rightarrow> ('p, 'r) sys" where
  "caller_wait b s =
     (case delegates s (c_this s) of
        None \<Rightarrow> s\<lparr>fault := True\<rparr>
      | Some this \<Rightarrow>
          (case delegates s (c_delegate s) of
             None \<Rightarrow> s\<lparr>fault := True\<rparr>
           | Some cl \<Rightarrow>
               s\<lparr>delegates := (delegates s)
                    (c_delegate s \<mapsto> cl\<lparr>m_sema := sema_Wait b (m_sema cl)\<rparr>,
                     c_this s \<mapsto> this\<lparr>m_success := b\<rparr>),
                 trace := trace s @ [(Caller, Op_wait (m_timeout this) b, m_lock cl)],
                 c_pc := C_copy\<rparr>))"

text \<open>
  \<open>if (m_success) m_retVal = delegate->m_retVal;\<close> then \<open>bool deleteData = false;\<close>
\<close>

definition caller_copy :: "('p, 'r) sys \<Rightarrow> ('p, 'r) sys" where
  "caller_copy s =
     (case delegates s (c_this s) of
        None \<Rightarrow> s\<lparr>fault := True\<rparr>
      | Some this \<Rightarrow>
          if m_success this then
            (case delegates s (c_delegate s) of
               None \<Rightarrow> s\<lparr>fault := True\<rparr>
             | Some cl \<Rightarrow>
                 s\<lparr>delegates := (delegates s)(c_this s \<mapsto> this\<lparr>m_retVal := m_retVal cl\<rparr>),
                   trace := trace s @ [(Caller, Op_read_ret, m_lock cl)],
                   c_deleteData := False,
                   c_pc := C_lock\<rparr>)
          else s\<lparr>c_deleteData := False, c_pc := C_lock\<rparr>)"

text \<open>
  \<open>LockGuard lockGuard(&delegate->m_lock);\<close> The guard's constructor blocks while the
  lock is held: the statement runs only when the lock is free.
\<close>

definition caller_lock :: "('p, 'r) sys \<Rightarrow> ('p, 'r) sys" where
  "caller_lock s =
     (case delegates s (c_delegate s) of
        None \<Rightarrow> s\<lparr>fault := True\<rparr>
      | Some cl \<Rightarrow>
          s\<lparr>delegates := (delegates s)(c_delegate s \<mapsto> cl\<lparr>m_lock := Held Caller\<rparr>),
            trace := trace s @ [(Caller, Op_lock, m_lock cl)],
            c_pc := C_dec\<rparr>)"

text \<open>\<open>if (--delegate->m_refCnt == 0) deleteData = true;\<close>\<close>

definition caller_dec :: "('p, 'r) sys \<Rightarrow> ('p, 'r) sys" where
  "caller_dec s =
     (case delegates s (c_delegate s) of
        None \<Rightarrow> s\<lparr>fault := True\<rparr>
      | Some cl \<Rightarrow>
          s\<lparr>delegates := (delegates s)(c_delegate s \<mapsto> cl\<lparr>m_refCnt := m_refCnt cl - 1\<rparr>),
            trace := trace s @ [(Caller, Op_dec_ref (m_refCnt cl - 1), m_lock cl)],
            c_deleteData := (if m_refCnt cl - 1 = 0 then True else c_deleteData s),
            c_pc := C_unlock\<rparr>)"

text \<open>The end of the guarded block: the guard's destructor releases the lock.\<close>

definition caller_unlock :: "('p, 'r) sys \<Rightarrow> ('p, 'r) sys" where
  "caller_unlock s =
     (case delegates s (c_delegate s) of
        None \<Rightarrow> s\<lparr>fault := True\<rparr>
      | Some cl \<Rightarrow>
          s\<lparr>delegates := (delegates s)(c_delegate s \<mapsto> cl\<lparr>m_lock := Unlocked\<rparr>),
            trace := trace s @ [(Caller, Op_unlock, m_lock cl)],
            c_pc := C_delete\<rparr>)"

text \<open>
  \<open>if (deleteData) { delete msg; delete delegate; }\<close> Deleting an object that is no longer
  allocated is a fault.
\<close>

definition caller_delete :: "('p, 'r) sys \<Rightarrow> ('p, 'r) sys" where
  "caller_delete s =
     (if c_deleteData s then
        (case msgs s (c_msg s) of
           None \<Rightarrow> s\<lparr>fault := True\<rparr>
         | Some mg \<Rightarrow>
             (case delegates s (c_delegate s) of
                None \<Rightarrow> s\<lparr>fault := True\<rparr>
              | Some cl \<Rightarrow>
                  s\<lparr>delegates := (delegates s)(c_delegate s := None),
                    msgs := (msgs s)(c_msg s := None),
                    trace := trace s @
                       [(Caller, Op_delete_msg (c_msg s), m_lock cl),
                        (Caller, Op_delete_delegate (c_delegate s), m_lock cl)],
                    c_pc := C_return\<rparr>))
      else s\<lparr>c_pc := C_return\<rparr>)"

text \<open>\<open>return m_retVal;\<close>\<close>

definition caller_return :: "('p, 'r) sys \<Rightarrow> ('p, 'r) sys" where
  "caller_return s =
     (case delegates s (c_this s) of
        None \<Rightarrow> s\<lparr>fault := True\<rparr>
      | Some this \<Rightarrow> s\<lparr>c_ret := m_retVal this, c_pc := C_done\<rparr>)"

subsection \<open>DelegateInvoke: the target thread\<close>

text \<open>
  The locals that \<open>DelegateInvoke\<close> declares for the arguments of the message, as the
  values the callable is called with. Every class but one declares each local with the type
  of its parameter (\<open>Param1 param1 = delegateMsg->GetParam1();\<close> and so on), which hands
  the arguments on as they are; the classes without parameter read nothing.
\<close>

definition GetParams :: "'p \<Rightarrow> 'p" where
  "GetParams p = p"

text \<open>
  \<open>DelegateMemberAsyncWait<RetType(TClass(Param1, Param2, Param3, Param4, Param5))>\<close>
  declares \<open>Param4 param5 = delegateMsg->GetParam5();\<close>: the fifth argument is converted
  to \<open>Param4\<close> when the local is initialised, and back to \<open>Param5\<close> when the local is
  passed to \<open>operator()(param1, param2, param3, param4, param5)\<close>. The two implicit
  conversions of the instantiation are parameters.
\<close>

definition GetParams_Member5_Ret ::
  "('e \<Rightarrow> 'd) \<Rightarrow> ('d \<Rightarrow> 'e) \<Rightarrow> 'a \<times> 'b \<times> 'c \<times> 'd \<times> 'e \<Rightarrow> 'a \<times> 'b \<times> 'c \<times> 'd \<times> 'e" where
  "GetParams_Member5_Ret to_Param4 to_Param5 p =
     (case p of (p1, p2, p3, p4, p5) \<Rightarrow> (p1, p2, p3, p4, to_Param5 (to_Param4 p5)))"

text \<open>
  The target thread takes the message at the head of its queue and enters
  \<open>DelegateInvoke(&msg)\<close> on the message's delegate: \<open>bool deleteData = false;\<close> and
  the declaration of the locals for the arguments, \<open>rd\<close> of the arguments held by the
  message, both before the lock is taken, as in the member classes (three of the
  free-function classes, those of one parameter and the one of two parameters with a
  return value, declare the locals right after the guard). The statement runs only when
  the queue holds a message.
\<close>

definition target_deliver :: "('p \<Rightarrow> 'p) \<Rightarrow> ('p, 'r) sys \<Rightarrow> ('p, 'r) sys" where
  "target_deliver rd s =
     (case queue s of
        [] \<Rightarrow> s
      | (thr, m) # q \<Rightarrow>
          (case msgs s m of
             None \<Rightarrow> s\<lparr>fault := True\<rparr>
           | Some mg \<Rightarrow>
               s\<lparr>queue := q,
                 trace := trace s @ [(Target, Op_get_param, lock_at s (msg_invoker mg))],
                 t_this := msg_invoker mg,
                 t_msg := m,
                 t_param1 := Some (rd (msg_param mg)),
                 t_deleteData := False,
                 t_pc := T_lock\<rparr>))"

text \<open>\<open>LockGuard lockGuard(&this->m_lock);\<close>, which runs only when the lock is free.\<close>

definition target_lock :: "('p, 'r) sys \<Rightarrow> ('p, 'r) sys" where
  "target_lock s =
     (case delegates s (t_this s) of
        None \<Rightarrow> s\<lparr>fault := True\<rparr>
      | Some cl \<Rightarrow>
          s\<lparr>delegates := (delegates s)(t_this s \<mapsto> cl\<lparr>m_lock := Held Target\<rparr>),
            trace := trace s @ [(Target, Op_lock, m_lock cl)],
            t_pc := T_check\<rparr>)"

text \<open>
  \<open>if (m_refCnt == 2) { m_retVal = Base::operator()(param1); ... }\<close>: the test, and in its
  true branch the invocation of the callable and the store of its result.
\<close>

definition target_check :: "(callable \<Rightarrow> 'p \<Rightarrow> 'r) \<Rightarrow> ('p, 'r) sys \<Rightarrow> ('p, 'r) sys" where
  "target_check fn s =
     (case delegates s (t_this s) of
        None \<Rightarrow> s\<lparr>fault := True\<rparr>
      | Some cl \<Rightarrow>
          if m_refCnt cl = 2 then
            (case t_param1 s of
               None \<Rightarrow> s\<lparr>fault := True\<rparr>
             | Some p \<Rightarrow>
                 s\<lparr>delegates := (delegates s)
                      (t_this s \<mapsto> cl\<lparr>m_retVal := Some (fn (m_callable cl) p)\<rparr>),
                   trace := trace s @
                      [(Target, Op_test_ref (m_refCnt cl), m_lock cl),
                       (Target, Op_invoke p (fn (m_callable cl) p), m_lock cl),
                       (Target, Op_store_ret, m_lock cl)],
                   t_pc := T_signal\<rparr>)
          else
            s\<lparr>trace := trace s @ [(Target, Op_test_ref (m_refCnt cl), m_lock cl)],
              t_pc := T_dec\<rparr>)"

text \<open>\<open>this->m_sema.Signal();\<close>, the last statement of the true branch.\<close>

definition target_signal :: "('p, 'r) sys \<Rightarrow> ('p, 'r) sys" where
  "target_signal s =
     (case delegates s (t_this s) of
        None \<Rightarrow> s\<lparr>fault := True\<rparr>
      | Some cl \<Rightarrow>
          s\<lparr>delegates := (delegates s)(t_this s \<mapsto> cl\<lparr>m_sema := sema_Signal (m_sema cl)\<rparr>),
            trace := trace s @ [(Target, Op_signal, m_lock cl)],
            t_pc := T_dec\<rparr>)"

text \<open>\<open>if (--this->m_refCnt == 0) deleteData = true;\<close>\<close>

definition target_dec :: "('p, 'r) sys \<Rightarrow> ('p, 'r) sys" where
  "target_dec s =
     (case delegates s (t_this s) of
        None \<Rightarrow> s\<lparr>fault := True\<rparr>
      | Some cl \<Rightarrow>
          s\<lparr>delegates := (delegates s)(t_this s \<mapsto> cl\<lparr>m_refCnt := m_refCnt cl - 1\<rparr>),
            trace := trace s @ [(Target, Op_dec_ref (m_refCnt cl - 1), m_lock cl)],
            t_deleteData := (if m_refCnt cl - 1 = 0 then True else t_deleteData s),
            t_pc := T_unlock\<rparr>)"

definition target_unlock :: "('p, 'r) sys \<Rightarrow> ('p, 'r) sys" where
  "target_unlock s =
     (case delegates s (t_this s) of
        None \<Rightarrow> s\<lparr>fault := True\<rparr>
      | Some cl \<Rightarrow>
          s\<lparr>delegates := (delegates s)(t_this s \<mapsto> cl\<lparr>m_lock := Unlocked\<rparr>),
            trace := trace s @ [(Target, Op_unlock, m_lock cl)],
            t_pc := T_delete\<rparr>)"

text \<open>\<open>if (deleteData) { delete *msg; *msg = 0; delete this; }\<close>\<close>

definition target_delete :: "('p, 'r) sys \<Rightarrow> ('p, 'r) sys" where
  "target_delete s =
     (if t_deleteData s then
        (case msgs s (t_msg s) of
           None \<Rightarrow> s\<lparr>fault := True\<rparr>
         | Some mg \<Rightarrow>
             (case delegates s (t_this s) of
                None \<Rightarrow> s\<lparr>fault := True\<rparr>
              | Some cl \<Rightarrow>
                  s\<lparr>delegates := (delegates s)(t_this s := None),
                    msgs := (msgs s)(t_msg s := None),
                    trace := trace s @
                       [(Target, Op_delete_msg (t_msg s), m_lock cl),
                        (Target, Op_delete_delegate (t_this s), m_lock cl)],
                    t_msg := null,
                    t_pc := T_done\<rparr>))
      else s\<lparr>t_pc := T_done\<rparr>)"

subsection \<open>Schedules\<close>

text \<open>
  An event lets one thread run its next statement; \<open>Timeout\<close> is the caller's wait
  returning false. \<open>step\<close> is \<open>None\<close> when the thread cannot move: it has finished, it
  waits for the lock, the signal or a message, or an earlier step faulted.
\<close>

datatype event = Run tid | Timeout

definition step ::
  "('p \<Rightarrow> 'p) \<Rightarrow> (callable \<Rightarrow> 'p \<Rightarrow> 'r) \<Rightarrow> event \<Rightarrow> ('p, 'r) sys \<Rightarrow> ('p, 'r) sys option" where
  "step rd fn e s =
     (if fault s then None
      else
        (case e of
           Timeout \<Rightarrow>
             (if c_pc s = C_wait \<and> caller_wait_returns False s
              then Some (caller_wait False s) else None)
         | Run Caller \<Rightarrow>
             (case c_pc s of
                C_start \<Rightarrow> Some (caller_start fn s)
              | C_wait \<Rightarrow>
                  (if caller_wait_returns True s then Some (caller_wait True s) else None)
              | C_copy \<Rightarrow> Some (caller_copy s)
              | C_lock \<Rightarrow>
                  (if lock_at s (c_delegate s) = Unlocked then Some (caller_lock s) else None)
              | C_dec \<Rightarrow> Some (caller_dec s)
              | C_unlock \<Rightarrow> Some (caller_unlock s)
              | C_delete \<Rightarrow> Some (caller_delete s)
              | C_return \<Rightarrow> Some (caller_return s)
              | C_done \<Rightarrow> None)
         | Run Target \<Rightarrow>
             (case t_pc s of
                T_idle \<Rightarrow> (if queue s = [] then None else Some (target_deliver rd s))
              | T_lock \<Rightarrow>
                  (if lock_at s (t_this s) = Unlocked then Some (target_lock s) else None)
              | T_check \<Rightarrow> Some (target_check fn s)
              | T_signal \<Rightarrow> Some (target_signal s)
              | T_dec \<Rightarrow> Some (target_dec s)
              | T_unlock \<Rightarrow> Some (target_unlock s)
              | T_delete \<Rightarrow> Some (target_delete s)
              | T_done \<Rightarrow> None)))"

fun run ::
  "('p \<Rightarrow> 'p) \<Rightarrow> (callable \<Rightarrow> 'p \<Rightarrow> 'r) \<Rightarrow> event list \<Rightarrow> ('p, 'r) sys \<Rightarrow> ('p, 'r) sys option" where
  "run rd fn [] s = Some s"
| "run rd fn (e # es) s = (case step rd fn e s of None \<Rightarrow> None | Some s' \<Rightarrow> run rd fn es s')"

section \<open>Two calls through one delegate\<close>

text \<open>
  Two caller threads call \<open>operator()\<close> of the same delegate object at the same time. The
  two calls share the heap; each has its own locals, its own message and its own run of
  \<open>DelegateInvoke\<close>. An event of one call is a step of that call on the shared heap,
  after which the other call sees the heap as the step left it.

  Modelled from the spec: the target thread (DelegateThread.h is not part of the sources).
  Section 4.3: an enqueued envelope is eventually handed, on the target thread, to its
  Execute operation, exactly once, with no order guaranteed relative to other envelopes.
  The two messages are delivered independently here, so the schedules contain every order
  in which one target thread can run the two \<open>DelegateInvoke\<close> calls one after the other.
\<close>

datatype call = First | Second

definition share_heap :: "('p, 'r) sys \<Rightarrow> ('p, 'r) sys \<Rightarrow> ('p, 'r) sys" where
  "share_heap h s = s\<lparr>delegates := delegates h, msgs := msgs h, next_addr := next_addr h\<rparr>"

definition begin_calls ::
  "(addr \<Rightarrow> 'r delegate option) \<Rightarrow> addr \<Rightarrow> addr \<Rightarrow> 'p \<Rightarrow> 'p \<Rightarrow> ('p, 'r) sys \<times> ('p, 'r) sys" where
  "begin_calls ds nxt this p1 p2 = (begin_call ds nxt this p1, begin_call ds nxt this p2)"

definition step2 ::
  "('p \<Rightarrow> 'p) \<Rightarrow> (callable \<Rightarrow> 'p \<Rightarrow> 'r) \<Rightarrow> call \<times> event \<Rightarrow> ('p, 'r) sys \<times> ('p, 'r) sys \<Rightarrow>
     (('p, 'r) sys \<times> ('p, 'r) sys) option" where
  "step2 rd fn ce ab =
     (case fst ce of
        First \<Rightarrow>
          (case step rd fn (snd ce) (fst ab) of
             None \<Rightarrow> None
           | Some a' \<Rightarrow> Some (a', share_heap a' (snd ab)))
      | Second \<Rightarrow>
          (case step rd fn (snd ce) (snd ab) of
             None \<Rightarrow> None
           | Some b' \<Rightarrow> Some (share_heap b' (fst ab), b')))"

fun run2 ::
  "('p \<Rightarrow> 'p) \<Rightarrow> (callable \<Rightarrow> 'p \<Rightarrow> 'r) \<Rightarrow> (call \<times> event) list \<Rightarrow> ('p, 'r) sys \<times> ('p, 'r) sys \<Rightarrow>
     (('p, 'r) sys \<times> ('p, 'r) sys) option" where
  "run2 rd fn [] ab = Some ab"
| "run2 rd fn (ce # ces) ab =
     (case step2 rd fn ce ab of None \<Rightarrow> None | Some ab' \<Rightarrow> run2 rd fn ces ab')"

section \<open>The record of operations\<close>

text \<open>
  The operations of one thread, in program order, and the classes of operation that the
  properties below speak of: the invocation of the callable, the test \<open>m_refCnt == 2\<close>
  that saw 2, the decrement of the reference count, the two deletes.
\<close>

definition ops_of :: "tid \<Rightarrow> (tid \<times> ('p, 'r) oper \<times> lock) list \<Rightarrow> ('p, 'r) oper list" where
  "ops_of t tr = map (\<lambda>e. fst (snd e)) (filter (\<lambda>e. fst e = t) tr)"

fun is_invoke :: "('p, 'r) oper \<Rightarrow> bool" where
  "is_invoke (Op_invoke p r) = True" | "is_invoke _ = False"

fun is_dec :: "('p, 'r) oper \<Rightarrow> bool" where
  "is_dec (Op_dec_ref v) = True" | "is_dec _ = False"

fun sees_two :: "('p, 'r) oper \<Rightarrow> bool" where
  "sees_two (Op_test_ref v) = (v = 2)" | "sees_two _ = False"

fun is_delete :: "('p, 'r) oper \<Rightarrow> bool" where
  "is_delete (Op_delete_msg a) = True" | "is_delete (Op_delete_delegate a) = True"
| "is_delete _ = False"

definition invocations :: "(tid \<times> ('p, 'r) oper \<times> lock) list \<Rightarrow> nat" where
  "invocations tr = length (filter is_invoke (ops_of Caller tr @ ops_of Target tr))"

definition tests_seeing_two :: "(tid \<times> ('p, 'r) oper \<times> lock) list \<Rightarrow> nat" where
  "tests_seeing_two tr = length (filter sees_two (ops_of Target tr))"

definition decrements :: "tid \<Rightarrow> (tid \<times> ('p, 'r) oper \<times> lock) list \<Rightarrow> ('p, 'r) oper list" where
  "decrements t tr = filter is_dec (ops_of t tr)"

definition releases :: "tid \<Rightarrow> (tid \<times> ('p, 'r) oper \<times> lock) list \<Rightarrow> ('p, 'r) oper list" where
  "releases t tr = filter is_delete (ops_of t tr)"

text \<open>
  The operations that the source places inside a \<open>LockGuard\<close> block, and the discipline
  a recorded operation obeys: an operation of a guarded block is made by the holder of the
  lock, a delete is made when nobody holds it, and any other operation is made by a thread
  that does not hold it.
\<close>

fun under_lock :: "('p, 'r) oper \<Rightarrow> bool" where
  "under_lock (Op_test_ref v) = True"
| "under_lock (Op_invoke p r) = True"
| "under_lock Op_store_ret = True"
| "under_lock Op_signal = True"
| "under_lock (Op_dec_ref v) = True"
| "under_lock Op_unlock = True"
| "under_lock _ = False"

definition lock_discipline :: "tid \<times> ('p, 'r) oper \<times> lock \<Rightarrow> bool" where
  "lock_discipline e =
     (if under_lock (fst (snd e)) then snd (snd e) = Held (fst e)
      else if is_delete (fst (snd e)) then snd (snd e) = Unlocked
      else snd (snd e) \<noteq> Held (fst e))"

text \<open>
  The accesses to the fields shared by the two threads: the stores to \<open>m_refCnt\<close>, and
  the accesses to \<open>m_refCnt\<close>, \<open>m_sema\<close> and \<open>m_retVal\<close> of the clone.
  \<open>outside_lock\<close> keeps those made by a thread that does not hold the clone's lock.
\<close>

fun mutates_refCnt :: "('p, 'r) oper \<Rightarrow> bool" where
  "mutates_refCnt (Op_set_ref v) = True"
| "mutates_refCnt (Op_dec_ref v) = True"
| "mutates_refCnt _ = False"

fun touches_shared_field :: "('p, 'r) oper \<Rightarrow> bool" where
  "touches_shared_field (Op_test_ref v) = True"
| "touches_shared_field (Op_wait t b) = True"
| "touches_shared_field Op_read_ret = True"
| "touches_shared_field Op_store_ret = True"
| "touches_shared_field Op_signal = True"
| "touches_shared_field _ = False"

definition outside_lock :: "(tid \<times> ('p, 'r) oper \<times> lock) list \<Rightarrow> (tid \<times> ('p, 'r) oper \<times> lock) list" where
  "outside_lock tr =
     filter (\<lambda>e. (mutates_refCnt (fst (snd e)) \<or> touches_shared_field (fst (snd e))) \<and>
                  snd (snd e) \<noteq> Held (fst e)) tr"

section \<open>Invariants of one call\<close>

text \<open>
  What the program counters say: whether a thread has made its decrement, holds the lock,
  has passed its delete, has passed the copy of the result, has made the test.
\<close>

fun c_decd :: "cpc \<Rightarrow> bool" where
  "c_decd C_unlock = True" | "c_decd C_delete = True" | "c_decd C_return = True"
| "c_decd C_done = True" | "c_decd _ = False"

fun c_holds :: "cpc \<Rightarrow> bool" where
  "c_holds C_dec = True" | "c_holds C_unlock = True" | "c_holds _ = False"

fun c_left :: "cpc \<Rightarrow> bool" where
  "c_left C_return = True" | "c_left C_done = True" | "c_left _ = False"

fun c_copied :: "cpc \<Rightarrow> bool" where
  "c_copied C_start = False" | "c_copied C_wait = False" | "c_copied C_copy = False" | "c_copied _ = True"

fun t_decd :: "tpc \<Rightarrow> bool" where
  "t_decd T_unlock = True" | "t_decd T_delete = True" | "t_decd T_done = True" | "t_decd _ = False"

fun t_holds :: "tpc \<Rightarrow> bool" where
  "t_holds T_check = True" | "t_holds T_signal = True" | "t_holds T_dec = True"
| "t_holds T_unlock = True" | "t_holds _ = False"

fun t_tested :: "tpc \<Rightarrow> bool" where
  "t_tested T_idle = False" | "t_tested T_lock = False" | "t_tested T_check = False"
| "t_tested T_signal = False" | "t_tested _ = True"

text \<open>
  Whether the target has invoked the callable, read off the control state; whether the wait
  of the caller succeeded; whether the clone and the message have been deleted; the lock
  and the reference count that the control state implies.
\<close>

fun invoked_at :: "cpc \<Rightarrow> bool \<Rightarrow> tpc \<Rightarrow> bool" where
  "invoked_at c del T_idle = False"
| "invoked_at c del T_lock = False"
| "invoked_at c del T_check = False"
| "invoked_at c del T_signal = True"
| "invoked_at c del T_dec = (\<not> c_decd c)"
| "invoked_at c del T_unlock = (\<not> del)"
| "invoked_at c del T_delete = (\<not> del)"
| "invoked_at c del T_done = (\<not> del)"

definition invoked :: "('p, 'r) sys \<Rightarrow> bool" where
  "invoked s = invoked_at (c_pc s) (t_deleteData s) (t_pc s)"

definition succeeded :: "('p, 'r) sys \<Rightarrow> bool" where
  "succeeded s = (case delegates s (c_this s) of None \<Rightarrow> False | Some this \<Rightarrow> m_success this)"

definition gone :: "('p, 'r) sys \<Rightarrow> bool" where
  "gone s = ((c_deleteData s \<and> c_left (c_pc s)) \<or> (t_deleteData s \<and> t_pc s = T_done))"

definition expected_lock :: "cpc \<Rightarrow> tpc \<Rightarrow> lock" where
  "expected_lock c t = (if c_holds c then Held Caller else if t_holds t then Held Target else Unlocked)"

definition expected_ref :: "cpc \<Rightarrow> tpc \<Rightarrow> int" where
  "expected_ref c t = (if c_decd c then 0 else 1) + (if t_decd t then 0 else 1)"

text \<open>
  The control invariant of a call on the delegate \<open>d0\<close> at address \<open>th\<close>, whose clone is
  at \<open>nxt\<close> and whose message is at \<open>Suc nxt\<close>: no fault, the locals of the two threads,
  mutual exclusion, the \<open>deleteData\<close> flags, and the reference count and lock of the clone
  as long as it is allocated.
\<close>

definition ctl_inv ::
  "('p \<Rightarrow> 'p) \<Rightarrow> 'r delegate \<Rightarrow> addr \<Rightarrow> addr \<Rightarrow> 'p \<Rightarrow> ('p, 'r) sys \<Rightarrow> bool" where
  "ctl_inv rd d0 th nxt p s =
     (\<not> fault s \<and> c_pc s \<noteq> C_start \<and> c_this s = th \<and> c_p1 s = p \<and>
      c_delegate s = nxt \<and> c_msg s = Suc nxt \<and> th \<noteq> nxt \<and>
      \<not> (c_holds (c_pc s) \<and> t_holds (t_pc s)) \<and>
      (t_pc s = T_signal \<longrightarrow> \<not> c_decd (c_pc s)) \<and>
      (if t_pc s = T_idle then queue s = [(m_thread d0, Suc nxt)]
       else queue s = [] \<and> t_this s = nxt \<and> t_param1 s = Some (rd p) \<and>
            (t_pc s \<noteq> T_done \<longrightarrow> t_msg s = Suc nxt)) \<and>
      (c_deleteData s \<longrightarrow> c_decd (c_pc s) \<and> t_decd (t_pc s) \<and> \<not> t_deleteData s) \<and>
      (t_deleteData s \<longrightarrow> c_decd (c_pc s) \<and> t_decd (t_pc s)) \<and>
      (c_decd (c_pc s) \<and> t_decd (t_pc s) \<longrightarrow> c_deleteData s \<or> t_deleteData s) \<and>
      (c_pc s = C_unlock \<and> t_decd (t_pc s) \<longrightarrow> c_deleteData s) \<and>
      (t_pc s = T_unlock \<and> c_decd (c_pc s) \<longrightarrow> t_deleteData s) \<and>
      delegates s th \<noteq> None \<and>
      (if gone s then delegates s nxt = None \<and> msgs s (Suc nxt) = None
       else msgs s (Suc nxt) = Some \<lparr>msg_invoker = nxt, msg_param = p\<rparr> \<and>
            (case delegates s nxt of
               None \<Rightarrow> False
             | Some cl \<Rightarrow>
                 m_refCnt cl = expected_ref (c_pc s) (t_pc s) \<and>
                 m_lock cl = expected_lock (c_pc s) (t_pc s))))"

text \<open>
  The data invariant: the fields of the calling delegate, the fields of the clone, and the
  frame (no other delegate and no other message is touched).
\<close>

definition this_ok :: "'r delegate \<Rightarrow> 'r \<Rightarrow> cpc \<Rightarrow> 'r option \<Rightarrow> 'r delegate \<Rightarrow> bool" where
  "this_ok d0 r c ret this =
     (m_callable this = m_callable d0 \<and> m_thread this = m_thread d0 \<and>
      m_timeout this = m_timeout d0 \<and> m_sema this = m_sema d0 \<and>
      m_lock this = m_lock d0 \<and> m_refCnt this = m_refCnt d0 \<and>
      (c = C_wait \<longrightarrow> m_success this = m_success d0) \<and>
      m_retVal this = (if c_copied c \<and> m_success this then Some r else m_retVal d0) \<and>
      (c = C_done \<longrightarrow> ret = m_retVal this))"

definition clone_ok ::
  "'r delegate \<Rightarrow> 'r \<Rightarrow> bool \<Rightarrow> cpc \<Rightarrow> tpc \<Rightarrow> bool \<Rightarrow> 'r delegate \<Rightarrow> bool" where
  "clone_ok d0 r succ c t tdel cl =
     (m_callable cl = m_callable d0 \<and>
      (t = T_signal \<longrightarrow> m_retVal cl = Some r) \<and>
      (signals (m_sema cl) \<noteq> 0 \<longrightarrow> m_retVal cl = Some r \<and> invoked_at c tdel t) \<and>
      (c = C_copy \<and> succ \<longrightarrow> m_retVal cl = Some r) \<and>
      (c = C_wait \<and> t_tested t \<longrightarrow> signals (m_sema cl) \<noteq> 0))"

definition data_inv ::
  "(callable \<Rightarrow> 'p \<Rightarrow> 'r) \<Rightarrow> (addr \<Rightarrow> 'r delegate option) \<Rightarrow> 'r delegate \<Rightarrow> addr \<Rightarrow> addr \<Rightarrow> 'p \<Rightarrow>
     ('p, 'r) sys \<Rightarrow> bool" where
  "data_inv fn ds d0 th nxt p s =
     (next_addr s = nxt + 2 \<and>
      (\<forall>a. a \<noteq> th \<longrightarrow> a \<noteq> nxt \<longrightarrow> delegates s a = ds a) \<and>
      (\<forall>a. a \<noteq> Suc nxt \<longrightarrow> msgs s a = None) \<and>
      (case delegates s th of
         None \<Rightarrow> True
       | Some this \<Rightarrow>
           this_ok d0 (fn (m_callable d0) p) (c_pc s) (c_ret s) this \<and>
           (c_pc s \<noteq> C_wait \<and> m_success this \<longrightarrow> invoked s) \<and>
           (case delegates s nxt of
              None \<Rightarrow> True
            | Some cl \<Rightarrow>
                clone_ok d0 (fn (m_callable d0) p) (m_success this) (c_pc s) (t_pc s)
                  (t_deleteData s) cl)))"

text \<open>
  The operations each thread has made when it stands at a given program point, and the
  invariant that the record of operations is that sequence and obeys the lock discipline.
\<close>

definition dispatch_ops :: "addr \<Rightarrow> addr \<Rightarrow> ('p, 'r) oper list" where
  "dispatch_ops nxt thr =
     [Op_clone nxt, Op_set_ref 2, Op_sema_create, Op_sema_reset, Op_new_msg (Suc nxt),
      Op_dispatch thr (Suc nxt)]"

definition waited_ops :: "addr \<Rightarrow> addr \<Rightarrow> int \<Rightarrow> bool \<Rightarrow> ('p, 'r) oper list" where
  "waited_ops nxt thr tmo b =
     dispatch_ops nxt thr @ [Op_wait tmo b] @ (if b then [Op_read_ret] else [])"

definition delete_ops :: "addr \<Rightarrow> bool \<Rightarrow> ('p, 'r) oper list" where
  "delete_ops nxt del = (if del then [Op_delete_msg (Suc nxt), Op_delete_delegate nxt] else [])"

fun caller_ops :: "addr \<Rightarrow> addr \<Rightarrow> int \<Rightarrow> bool \<Rightarrow> bool \<Rightarrow> cpc \<Rightarrow> ('p, 'r) oper list" where
  "caller_ops nxt thr tmo b del C_start = []"
| "caller_ops nxt thr tmo b del C_wait = dispatch_ops nxt thr"
| "caller_ops nxt thr tmo b del C_copy = dispatch_ops nxt thr @ [Op_wait tmo b]"
| "caller_ops nxt thr tmo b del C_lock = waited_ops nxt thr tmo b"
| "caller_ops nxt thr tmo b del C_dec = waited_ops nxt thr tmo b @ [Op_lock]"
| "caller_ops nxt thr tmo b del C_unlock =
     waited_ops nxt thr tmo b @ [Op_lock, Op_dec_ref (if del then 0 else 1)]"
| "caller_ops nxt thr tmo b del C_delete =
     waited_ops nxt thr tmo b @ [Op_lock, Op_dec_ref (if del then 0 else 1), Op_unlock]"
| "caller_ops nxt thr tmo b del C_return =
     waited_ops nxt thr tmo b @ [Op_lock, Op_dec_ref (if del then 0 else 1), Op_unlock] @
     delete_ops nxt del"
| "caller_ops nxt thr tmo b del C_done =
     waited_ops nxt thr tmo b @ [Op_lock, Op_dec_ref (if del then 0 else 1), Op_unlock] @
     delete_ops nxt del"

definition tested_ops :: "'p \<Rightarrow> 'r \<Rightarrow> bool \<Rightarrow> ('p, 'r) oper list" where
  "tested_ops p r ivk =
     [Op_get_param, Op_lock] @
     (if ivk then [Op_test_ref 2, Op_invoke p r, Op_store_ret, Op_signal] else [Op_test_ref 1])"

fun target_ops :: "addr \<Rightarrow> 'p \<Rightarrow> 'r \<Rightarrow> bool \<Rightarrow> bool \<Rightarrow> tpc \<Rightarrow> ('p, 'r) oper list" where
  "target_ops nxt p r ivk del T_idle = []"
| "target_ops nxt p r ivk del T_lock = [Op_get_param]"
| "target_ops nxt p r ivk del T_check = [Op_get_param, Op_lock]"
| "target_ops nxt p r ivk del T_signal =
     [Op_get_param, Op_lock, Op_test_ref 2, Op_invoke p r, Op_store_ret]"
| "target_ops nxt p r ivk del T_dec = tested_ops p r ivk"
| "target_ops nxt p r ivk del T_unlock =
     tested_ops p r ivk @ [Op_dec_ref (if del then 0 else 1)]"
| "target_ops nxt p r ivk del T_delete =
     tested_ops p r ivk @ [Op_dec_ref (if del then 0 else 1), Op_unlock]"
| "target_ops nxt p r ivk del T_done =
     tested_ops p r ivk @ [Op_dec_ref (if del then 0 else 1), Op_unlock] @ delete_ops nxt del"

definition trace_inv ::
  "(callable \<Rightarrow> 'p \<Rightarrow> 'r) \<Rightarrow> 'r delegate \<Rightarrow> addr \<Rightarrow> 'p \<Rightarrow> ('p, 'r) sys \<Rightarrow> bool" where
  "trace_inv fn d0 nxt p s =
     (list_all lock_discipline (trace s) \<and>
      ops_of Caller (trace s) =
        caller_ops nxt (m_thread d0) (m_timeout d0) (succeeded s) (c_deleteData s) (c_pc s) \<and>
      ops_of Target (trace s) =
        target_ops nxt p (fn (m_callable d0) p) (invoked s) (t_deleteData s) (t_pc s))"

definition call_inv ::
  "('p \<Rightarrow> 'p) \<Rightarrow> (callable \<Rightarrow> 'p \<Rightarrow> 'r) \<Rightarrow> (addr \<Rightarrow> 'r delegate option) \<Rightarrow> 'r delegate \<Rightarrow> addr \<Rightarrow> addr \<Rightarrow> 'p \<Rightarrow>
     ('p, 'r) sys \<Rightarrow> bool" where
  "call_inv rd fn ds d0 th nxt p s =
     (ctl_inv rd d0 th nxt p s \<and> data_inv fn ds d0 th nxt (rd p) s \<and> trace_inv fn d0 nxt (rd p) s)"

text \<open>The number of statements the two threads have executed, which bounds every run.\<close>

fun c_rank :: "cpc \<Rightarrow> nat" where
  "c_rank C_start = 0" | "c_rank C_wait = 1" | "c_rank C_copy = 2" | "c_rank C_lock = 3"
| "c_rank C_dec = 4" | "c_rank C_unlock = 5" | "c_rank C_delete = 6" | "c_rank C_return = 7"
| "c_rank C_done = 8"

fun t_rank :: "tpc \<Rightarrow> nat" where
  "t_rank T_idle = 0" | "t_rank T_lock = 1" | "t_rank T_check = 2" | "t_rank T_signal = 3"
| "t_rank T_dec = 4" | "t_rank T_unlock = 5" | "t_rank T_delete = 6" | "t_rank T_done = 7"

definition rank :: "('p, 'r) sys \<Rightarrow> nat" where
  "rank s = c_rank (c_pc s) + t_rank (t_pc s)"

section \<open>Invariants of two calls\<close>

text \<open>
  What a step of a call leaves as it is: every delegate but the caller's own and the clone
  of the call, every message but its own, and the thread pointer of the caller's own
  object.
\<close>

definition frame :: "addr \<Rightarrow> addr \<Rightarrow> ('p, 'r) sys \<Rightarrow> ('p, 'r) sys \<Rightarrow> bool" where
  "frame th nxt s s' =
     (next_addr s' = next_addr s \<and>
      (\<forall>x. x \<noteq> th \<longrightarrow> x \<noteq> nxt \<longrightarrow> delegates s' x = delegates s x) \<and>
      (\<forall>x. x \<noteq> Suc nxt \<longrightarrow> msgs s' x = msgs s x) \<and>
      (case delegates s th of
         None \<Rightarrow> True
       | Some t \<Rightarrow>
           (case delegates s' th of None \<Rightarrow> False | Some t' \<Rightarrow> m_thread t' = m_thread t)))"

text \<open>
  A call that has not begun; a call that has begun satisfies the control invariant for the
  clone it allocated. The invariant of two calls: one heap, both calls in order, and two
  different clones once both have begun.
\<close>

definition not_begun :: "addr \<Rightarrow> 'p \<Rightarrow> ('p, 'r) sys \<Rightarrow> bool" where
  "not_begun th p s =
     (c_pc s = C_start \<and> \<not> fault s \<and> c_this s = th \<and> c_p1 s = p \<and> queue s = [] \<and>
      t_pc s = T_idle \<and> \<not> c_deleteData s \<and> \<not> t_deleteData s)"

definition call_ok ::
  "('p \<Rightarrow> 'p) \<Rightarrow> 'r delegate \<Rightarrow> addr \<Rightarrow> 'p \<Rightarrow> ('p, 'r) sys \<Rightarrow> bool" where
  "call_ok rd d0 th p s =
     (if c_pc s = C_start then not_begun th p s
      else ctl_inv rd d0 th (c_delegate s) p s \<and> c_delegate s + 2 \<le> next_addr s)"

definition calls_inv ::
  "('p \<Rightarrow> 'p) \<Rightarrow> 'r delegate \<Rightarrow> addr \<Rightarrow> 'p \<Rightarrow> 'p \<Rightarrow> ('p, 'r) sys \<times> ('p, 'r) sys \<Rightarrow> bool" where
  "calls_inv rd d0 th p1 p2 ab =
     (delegates (fst ab) = delegates (snd ab) \<and> msgs (fst ab) = msgs (snd ab) \<and>
      next_addr (fst ab) = next_addr (snd ab) \<and> th < next_addr (fst ab) \<and>
      (case delegates (fst ab) th of None \<Rightarrow> False | Some t \<Rightarrow> m_thread t = m_thread d0) \<and>
      call_ok rd d0 th p1 (fst ab) \<and> call_ok rd d0 th p2 (snd ab) \<and>
      (c_pc (fst ab) \<noteq> C_start \<and> c_pc (snd ab) \<noteq> C_start \<longrightarrow>
         c_delegate (fst ab) \<noteq> c_delegate (snd ab)))"

text \<open>
  The clone of a call as the call's own two threads left it: deleted with its message
  once the call has released it, and otherwise with the reference count and the lock owner
  that follow from where the two threads of that call stand.
\<close>

definition own_clone :: "('p, 'r) sys \<Rightarrow> bool" where
  "own_clone s =
     (if gone s then delegates s (c_delegate s) = None \<and> msgs s (c_msg s) = None
      else (case delegates s (c_delegate s) of
              None \<Rightarrow> False
            | Some cl \<Rightarrow>
                m_refCnt cl = expected_ref (c_pc s) (t_pc s) \<and>
                m_lock cl = expected_lock (c_pc s) (t_pc s)))"

section \<open>Example objects\<close>

text \<open>
  A callable that squares its argument. A delegate bound to member function 7 of the object
  at address 10, for the target thread at address 9 with a timeout of 1000 ms; the same
  binding for the thread at address 6; a free-function delegate with no target thread.
  The heap holds the delegate at address 3; the call passes the argument 5, its clone is
  allocated at 4 and its message at 5.
\<close>

definition ex_fn :: "callable \<Rightarrow> int \<Rightarrow> int" where
  "ex_fn c x = x * x"

definition ex_delegate :: "int delegate" where
  "ex_delegate = DelegateAsyncWait (MemberFn 10 7) 9 1000"

definition ex_delegate_other_thread :: "int delegate" where
  "ex_delegate_other_thread = DelegateAsyncWait (MemberFn 10 7) 6 1000"

definition ex_sync_delegate :: "int delegate" where
  "ex_sync_delegate = DelegateAsyncWait (FreeFn 7) null 1000"

definition ex_heap :: "addr \<Rightarrow> int delegate option" where
  "ex_heap = Map.empty(3 \<mapsto> ex_delegate)"

definition ex_sync_heap :: "addr \<Rightarrow> int delegate option" where
  "ex_sync_heap = Map.empty(3 \<mapsto> ex_sync_delegate)"

definition ex_call :: "(int, int) sys" where
  "ex_call = begin_call ex_heap 4 3 5"

text \<open>
  The five-parameter member class with a return value, instantiated with \<open>Param4 = bool\<close>
  and \<open>Param5 = int\<close>: the two conversions of C++ between these types, the locals its
  \<open>DelegateInvoke\<close> declares, a callable that returns its fifth argument, and the call of
  the delegate at address 3 with the arguments (1, 2, 3, true, 5).
\<close>

definition int_to_bool :: "int \<Rightarrow> bool" where
  "int_to_bool x = (x \<noteq> 0)"

definition bool_to_int :: "bool \<Rightarrow> int" where
  "bool_to_int b = (if b then 1 else 0)"

definition ex_rd5 :: "int \<times> int \<times> int \<times> bool \<times> int \<Rightarrow> int \<times> int \<times> int \<times> bool \<times> int" where
  "ex_rd5 = GetParams_Member5_Ret int_to_bool bool_to_int"

definition ex_fn5 :: "callable \<Rightarrow> int \<times> int \<times> int \<times> bool \<times> int \<Rightarrow> int" where
  "ex_fn5 c p = (case p of (p1, p2, p3, p4, p5) \<Rightarrow> p5)"

definition ex_call5 :: "(int \<times> int \<times> int \<times> bool \<times> int, int) sys" where
  "ex_call5 = begin_call ex_heap 4 3 (1, 2, 3, True, 5)"

text \<open>
  Two schedules of the call: one where the target invokes the callable before the caller's
  wait returns, one where the wait times out first. Then the state right after the
  dispatch, the state where the caller has timed out and released the lock while the
  message is still queued.
\<close>

definition sched_success :: "event list" where
  "sched_success =
     [Run Caller, Run Target, Run Target, Run Target, Run Target, Run Caller, Run Caller,
      Run Target, Run Target, Run Caller, Run Caller, Run Caller, Run Caller, Run Caller,
      Run Target]"

definition sched_timeout :: "event list" where
  "sched_timeout =
     [Run Caller, Timeout, Run Caller, Run Caller, Run Caller, Run Caller, Run Caller,
      Run Caller, Run Target, Run Target, Run Target, Run Target, Run Target, Run Target]"

definition ex_success :: "(int, int) sys" where
  "ex_success = the (run GetParams ex_fn sched_success ex_call)"

definition ex_timeout :: "(int, int) sys" where
  "ex_timeout = the (run GetParams ex_fn sched_timeout ex_call)"

definition ex_dispatched :: "(int, int) sys" where
  "ex_dispatched = caller_start ex_fn ex_call"

definition ex_abandoned :: "(int, int) sys" where
  "ex_abandoned =
     the (run GetParams ex_fn [Run Caller, Timeout, Run Caller, Run Caller, Run Caller, Run Caller] ex_call)"

definition ex_success5 :: "(int \<times> int \<times> int \<times> bool \<times> int, int) sys" where
  "ex_success5 = the (run ex_rd5 ex_fn5 sched_success ex_call5)"

definition ex_dispatched5 :: "(int \<times> int \<times> int \<times> bool \<times> int, int) sys" where
  "ex_dispatched5 = caller_start ex_fn5 ex_call5"

definition ex_invoked5 :: "(int \<times> int \<times> int \<times> bool \<times> int, int) sys" where
  "ex_invoked5 =
     the (run ex_rd5 ex_fn5 [Run Target, Run Target, Run Target, Run Target, Run Target, Run Target]
            ex_dispatched5)"

definition ex_clone :: "int delegate" where
  "ex_clone = (Clone ex_delegate)\<lparr>m_refCnt := 2, m_sema := sema_Reset (sema_Create Semaphore)\<rparr>"

definition ex_msg :: "int msg" where
  "ex_msg = \<lparr>msg_invoker = 4, msg_param = 5\<rparr>"

text \<open>
  Two calls through the delegate at address 3, with the arguments 5 and 6. In the first
  schedule the first call runs up to its \<open>return m_retVal\<close>, the second call runs from
  its beginning to its end, and then the first call returns. In the second schedule both
  calls are dispatched and both target invocations have taken the lock of their clone.
\<close>

definition sched_two_calls :: "(call \<times> event) list" where
  "sched_two_calls =
     [(First, Run Caller),
      (First, Run Target), (First, Run Target), (First, Run Target), (First, Run Target),
      (First, Run Target), (First, Run Target), (First, Run Target),
      (First, Run Caller), (First, Run Caller), (First, Run Caller), (First, Run Caller),
      (First, Run Caller), (First, Run Caller),
      (Second, Run Caller),
      (Second, Run Target), (Second, Run Target), (Second, Run Target), (Second, Run Target),
      (Second, Run Target), (Second, Run Target), (Second, Run Target),
      (Second, Run Caller), (Second, Run Caller), (Second, Run Caller), (Second, Run Caller),
      (Second, Run Caller), (Second, Run Caller), (Second, Run Caller),
      (First, Run Caller)]"

definition ex_two_calls :: "(int, int) sys \<times> (int, int) sys" where
  "ex_two_calls = the (run2 GetParams ex_fn sched_two_calls (begin_calls ex_heap 4 3 5 6))"

definition sched_in_flight :: "(call \<times> event) list" where
  "sched_in_flight =
     [(First, Run Caller), (Second, Run Caller), (First, Run Target), (Second, Run Target),
      (First, Run Target), (Second, Run Target)]"

definition ex_in_flight :: "(int, int) sys \<times> (int, int) sys" where
  "ex_in_flight = the (run2 GetParams ex_fn sched_in_flight (begin_calls ex_heap 4 3 5 6))"

section \<open>Preservation of the invariants\<close>

lemmas sema_defs = Semaphore_def sema_Create_def sema_Reset_def sema_Signal_def sema_Wait_def sema_Wait_returns_def

lemmas ctl_defs = ctl_inv_def gone_def expected_lock_def expected_ref_def

lemmas data_defs = data_inv_def this_ok_def clone_ok_def invoked_def

lemmas tr_defs = trace_inv_def ops_of_def lock_discipline_def succeeded_def dispatch_ops_def
  waited_ops_def delete_ops_def tested_ops_def

subsection \<open>The control invariant\<close>

text \<open>Each statement of either thread keeps the control invariant.\<close>

lemma ctl_start:
  "ds th = Some d0 \<Longrightarrow> ds nxt = None \<Longrightarrow> m_thread d0 \<noteq> null \<Longrightarrow>
   ctl_inv rd d0 th nxt p (caller_start fn (begin_call ds nxt th p))"
  by (auto simp: ctl_defs caller_start_def begin_call_def Clone_def copy_ctor_def Swap_def)

lemma ctl_caller_wait:
  "ctl_inv rd d0 th nxt p s \<Longrightarrow> c_pc s = C_wait \<Longrightarrow> caller_wait_returns b s \<Longrightarrow>
   ctl_inv rd d0 th nxt p (caller_wait b s)"
  by (cases "t_pc s"; cases "c_deleteData s"; cases "t_deleteData s";
      cases "delegates s nxt"; cases "delegates s th")
     (simp_all add: ctl_defs caller_wait_def caller_wait_returns_def sema_defs)

lemma ctl_caller_copy:
  "ctl_inv rd d0 th nxt p s \<Longrightarrow> c_pc s = C_copy \<Longrightarrow>
   ctl_inv rd d0 th nxt p (caller_copy s)"
  by (cases "t_pc s"; cases "c_deleteData s"; cases "t_deleteData s";
      cases "delegates s nxt"; cases "delegates s th")
     (simp_all add: ctl_defs caller_copy_def)

lemma ctl_caller_lock:
  "ctl_inv rd d0 th nxt p s \<Longrightarrow> c_pc s = C_lock \<Longrightarrow> lock_at s (c_delegate s) = Unlocked \<Longrightarrow>
   ctl_inv rd d0 th nxt p (caller_lock s)"
  by (cases "t_pc s"; cases "c_deleteData s"; cases "t_deleteData s";
      cases "delegates s nxt"; cases "delegates s th")
     (simp_all add: ctl_defs caller_lock_def lock_at_def)

lemma ctl_caller_dec:
  "ctl_inv rd d0 th nxt p s \<Longrightarrow> c_pc s = C_dec \<Longrightarrow>
   ctl_inv rd d0 th nxt p (caller_dec s)"
  by (cases "t_pc s"; cases "c_deleteData s"; cases "t_deleteData s";
      cases "delegates s nxt"; cases "delegates s th")
     (simp_all add: ctl_defs caller_dec_def)

lemma ctl_caller_unlock:
  "ctl_inv rd d0 th nxt p s \<Longrightarrow> c_pc s = C_unlock \<Longrightarrow>
   ctl_inv rd d0 th nxt p (caller_unlock s)"
  by (cases "t_pc s"; cases "c_deleteData s"; cases "t_deleteData s";
      cases "delegates s nxt"; cases "delegates s th")
     (simp_all add: ctl_defs caller_unlock_def)

lemma ctl_caller_delete:
  "ctl_inv rd d0 th nxt p s \<Longrightarrow> c_pc s = C_delete \<Longrightarrow>
   ctl_inv rd d0 th nxt p (caller_delete s)"
  by (cases "t_pc s"; cases "c_deleteData s"; cases "t_deleteData s";
      cases "delegates s nxt"; cases "delegates s th")
     (simp_all add: ctl_defs caller_delete_def)

lemma ctl_caller_return:
  "ctl_inv rd d0 th nxt p s \<Longrightarrow> c_pc s = C_return \<Longrightarrow>
   ctl_inv rd d0 th nxt p (caller_return s)"
  by (cases "t_pc s"; cases "c_deleteData s"; cases "t_deleteData s";
      cases "delegates s nxt"; cases "delegates s th")
     (simp_all add: ctl_defs caller_return_def)

lemma ctl_target_deliver:
  "ctl_inv rd d0 th nxt p s \<Longrightarrow> t_pc s = T_idle \<Longrightarrow>
   ctl_inv rd d0 th nxt p (target_deliver rd s)"
  by (cases "c_pc s"; cases "c_deleteData s"; cases "t_deleteData s";
      cases "delegates s nxt"; cases "delegates s th")
     (simp_all add: ctl_defs target_deliver_def lock_at_def)

lemma ctl_target_lock:
  "ctl_inv rd d0 th nxt p s \<Longrightarrow> t_pc s = T_lock \<Longrightarrow> lock_at s (t_this s) = Unlocked \<Longrightarrow>
   ctl_inv rd d0 th nxt p (target_lock s)"
  by (cases "c_pc s"; cases "c_deleteData s"; cases "t_deleteData s";
      cases "delegates s nxt"; cases "delegates s th")
     (simp_all add: ctl_defs target_lock_def lock_at_def)

lemma ctl_target_check:
  "ctl_inv rd d0 th nxt p s \<Longrightarrow> t_pc s = T_check \<Longrightarrow>
   ctl_inv rd d0 th nxt p (target_check fn s)"
  by (cases "c_pc s"; cases "c_deleteData s"; cases "t_deleteData s";
      cases "delegates s nxt"; cases "delegates s th")
     (simp_all add: ctl_defs target_check_def)

lemma ctl_target_signal:
  "ctl_inv rd d0 th nxt p s \<Longrightarrow> t_pc s = T_signal \<Longrightarrow>
   ctl_inv rd d0 th nxt p (target_signal s)"
  by (cases "c_pc s"; cases "c_deleteData s"; cases "t_deleteData s";
      cases "delegates s nxt"; cases "delegates s th")
     (simp_all add: ctl_defs target_signal_def sema_defs)

lemma ctl_target_dec:
  "ctl_inv rd d0 th nxt p s \<Longrightarrow> t_pc s = T_dec \<Longrightarrow>
   ctl_inv rd d0 th nxt p (target_dec s)"
  by (cases "c_pc s"; cases "c_deleteData s"; cases "t_deleteData s";
      cases "delegates s nxt"; cases "delegates s th")
     (simp_all add: ctl_defs target_dec_def)

lemma ctl_target_unlock:
  "ctl_inv rd d0 th nxt p s \<Longrightarrow> t_pc s = T_unlock \<Longrightarrow>
   ctl_inv rd d0 th nxt p (target_unlock s)"
  by (cases "c_pc s"; cases "c_deleteData s"; cases "t_deleteData s";
      cases "delegates s nxt"; cases "delegates s th")
     (simp_all add: ctl_defs target_unlock_def)

lemma ctl_target_delete:
  "ctl_inv rd d0 th nxt p s \<Longrightarrow> t_pc s = T_delete \<Longrightarrow>
   ctl_inv rd d0 th nxt p (target_delete s)"
  by (cases "c_pc s"; cases "c_deleteData s"; cases "t_deleteData s";
      cases "delegates s nxt"; cases "delegates s th")
     (simp_all add: ctl_defs target_delete_def)

subsection \<open>The data invariant\<close>

text \<open>Each statement keeps the data invariant, given the control invariant.\<close>

lemma data_start:
  "ds th = Some d0 \<Longrightarrow> ds nxt = None \<Longrightarrow> m_thread d0 \<noteq> null \<Longrightarrow>
   data_inv fn ds d0 th nxt (rd p) (caller_start fn (begin_call ds nxt th p))"
  by (auto simp: data_defs caller_start_def begin_call_def Clone_def copy_ctor_def Swap_def sema_defs)

lemma data_caller_wait:
  "ctl_inv rd d0 th nxt p s \<Longrightarrow> data_inv fn ds d0 th nxt (rd p) s \<Longrightarrow> c_pc s = C_wait \<Longrightarrow> caller_wait_returns b s \<Longrightarrow>
   data_inv fn ds d0 th nxt (rd p) (caller_wait b s)"
  by (cases "t_pc s"; cases "c_deleteData s"; cases "t_deleteData s";
      cases "delegates s nxt"; cases "delegates s th"; cases b)
     (simp_all add: ctl_defs data_defs caller_wait_def caller_wait_returns_def sema_defs)

lemma data_caller_copy:
  "ctl_inv rd d0 th nxt p s \<Longrightarrow> data_inv fn ds d0 th nxt (rd p) s \<Longrightarrow> c_pc s = C_copy \<Longrightarrow>
   data_inv fn ds d0 th nxt (rd p) (caller_copy s)"
  by (cases "t_pc s"; cases "c_deleteData s"; cases "t_deleteData s";
      cases "delegates s nxt"; cases "delegates s th")
     (simp_all add: ctl_defs data_defs caller_copy_def)

lemma data_caller_lock:
  "ctl_inv rd d0 th nxt p s \<Longrightarrow> data_inv fn ds d0 th nxt (rd p) s \<Longrightarrow> c_pc s = C_lock \<Longrightarrow> lock_at s (c_delegate s) = Unlocked \<Longrightarrow>
   data_inv fn ds d0 th nxt (rd p) (caller_lock s)"
  by (cases "t_pc s"; cases "c_deleteData s"; cases "t_deleteData s";
      cases "delegates s nxt"; cases "delegates s th")
     (simp_all add: ctl_defs data_defs caller_lock_def lock_at_def)

lemma data_caller_dec:
  "ctl_inv rd d0 th nxt p s \<Longrightarrow> data_inv fn ds d0 th nxt (rd p) s \<Longrightarrow> c_pc s = C_dec \<Longrightarrow>
   data_inv fn ds d0 th nxt (rd p) (caller_dec s)"
  by (cases "t_pc s"; cases "c_deleteData s"; cases "t_deleteData s";
      cases "delegates s nxt"; cases "delegates s th")
     (simp_all add: ctl_defs data_defs caller_dec_def)

lemma data_caller_unlock:
  "ctl_inv rd d0 th nxt p s \<Longrightarrow> data_inv fn ds d0 th nxt (rd p) s \<Longrightarrow> c_pc s = C_unlock \<Longrightarrow>
   data_inv fn ds d0 th nxt (rd p) (caller_unlock s)"
  by (cases "t_pc s"; cases "c_deleteData s"; cases "t_deleteData s";
      cases "delegates s nxt"; cases "delegates s th")
     (simp_all add: ctl_defs data_defs caller_unlock_def)

lemma data_caller_delete:
  "ctl_inv rd d0 th nxt p s \<Longrightarrow> data_inv fn ds d0 th nxt (rd p) s \<Longrightarrow> c_pc s = C_delete \<Longrightarrow>
   data_inv fn ds d0 th nxt (rd p) (caller_delete s)"
  by (cases "t_pc s"; cases "c_deleteData s"; cases "t_deleteData s";
      cases "delegates s nxt"; cases "delegates s th")
     (simp_all add: ctl_defs data_defs caller_delete_def)

lemma data_caller_return:
  "ctl_inv rd d0 th nxt p s \<Longrightarrow> data_inv fn ds d0 th nxt (rd p) s \<Longrightarrow> c_pc s = C_return \<Longrightarrow>
   data_inv fn ds d0 th nxt (rd p) (caller_return s)"
  by (cases "t_pc s"; cases "c_deleteData s"; cases "t_deleteData s";
      cases "delegates s nxt"; cases "delegates s th")
     (simp_all add: ctl_defs data_defs caller_return_def)

lemma data_target_deliver:
  "ctl_inv rd d0 th nxt p s \<Longrightarrow> data_inv fn ds d0 th nxt (rd p) s \<Longrightarrow> t_pc s = T_idle \<Longrightarrow>
   data_inv fn ds d0 th nxt (rd p) (target_deliver rd s)"
  by (cases "c_pc s"; cases "c_deleteData s"; cases "t_deleteData s";
      cases "delegates s nxt"; cases "delegates s th")
     (simp_all add: ctl_defs data_defs target_deliver_def lock_at_def)

lemma data_target_lock:
  "ctl_inv rd d0 th nxt p s \<Longrightarrow> data_inv fn ds d0 th nxt (rd p) s \<Longrightarrow> t_pc s = T_lock \<Longrightarrow> lock_at s (t_this s) = Unlocked \<Longrightarrow>
   data_inv fn ds d0 th nxt (rd p) (target_lock s)"
  by (cases "c_pc s"; cases "c_deleteData s"; cases "t_deleteData s";
      cases "delegates s nxt"; cases "delegates s th")
     (simp_all add: ctl_defs data_defs target_lock_def lock_at_def)

lemma data_target_check:
  "ctl_inv rd d0 th nxt p s \<Longrightarrow> data_inv fn ds d0 th nxt (rd p) s \<Longrightarrow> t_pc s = T_check \<Longrightarrow>
   data_inv fn ds d0 th nxt (rd p) (target_check fn s)"
  by (cases "c_pc s"; cases "c_deleteData s"; cases "t_deleteData s";
      cases "delegates s nxt"; cases "delegates s th")
     (simp_all add: ctl_defs data_defs target_check_def)

lemma data_target_signal:
  "ctl_inv rd d0 th nxt p s \<Longrightarrow> data_inv fn ds d0 th nxt (rd p) s \<Longrightarrow> t_pc s = T_signal \<Longrightarrow>
   data_inv fn ds d0 th nxt (rd p) (target_signal s)"
  by (cases "c_pc s"; cases "c_deleteData s"; cases "t_deleteData s";
      cases "delegates s nxt"; cases "delegates s th")
     (simp_all add: ctl_defs data_defs target_signal_def sema_defs)

lemma data_target_dec:
  "ctl_inv rd d0 th nxt p s \<Longrightarrow> data_inv fn ds d0 th nxt (rd p) s \<Longrightarrow> t_pc s = T_dec \<Longrightarrow>
   data_inv fn ds d0 th nxt (rd p) (target_dec s)"
  by (cases "c_pc s"; cases "c_deleteData s"; cases "t_deleteData s";
      cases "delegates s nxt"; cases "delegates s th")
     (simp_all add: ctl_defs data_defs target_dec_def)

lemma data_target_unlock:
  "ctl_inv rd d0 th nxt p s \<Longrightarrow> data_inv fn ds d0 th nxt (rd p) s \<Longrightarrow> t_pc s = T_unlock \<Longrightarrow>
   data_inv fn ds d0 th nxt (rd p) (target_unlock s)"
  by (cases "c_pc s"; cases "c_deleteData s"; cases "t_deleteData s";
      cases "delegates s nxt"; cases "delegates s th")
     (simp_all add: ctl_defs data_defs target_unlock_def)

lemma data_target_delete:
  "ctl_inv rd d0 th nxt p s \<Longrightarrow> data_inv fn ds d0 th nxt (rd p) s \<Longrightarrow> t_pc s = T_delete \<Longrightarrow>
   data_inv fn ds d0 th nxt (rd p) (target_delete s)"
  by (cases "c_pc s"; cases "c_deleteData s"; cases "t_deleteData s";
      cases "delegates s nxt"; cases "delegates s th")
     (simp_all add: ctl_defs data_defs target_delete_def)

subsection \<open>The record of operations\<close>

text \<open>Each statement extends the record as the program order says, under the lock discipline.\<close>

lemma tr_start:
  "ds th = Some d0 \<Longrightarrow> ds nxt = None \<Longrightarrow> m_thread d0 \<noteq> null \<Longrightarrow>
   trace_inv fn d0 nxt (rd p) (caller_start fn (begin_call ds nxt th p))"
  by (auto simp: tr_defs invoked_def caller_start_def begin_call_def Clone_def copy_ctor_def Swap_def sema_defs)

lemma tr_caller_wait:
  "ctl_inv rd d0 th nxt p s \<Longrightarrow> data_inv fn ds d0 th nxt (rd p) s \<Longrightarrow> trace_inv fn d0 nxt (rd p) s \<Longrightarrow>
   c_pc s = C_wait \<Longrightarrow> caller_wait_returns b s \<Longrightarrow> trace_inv fn d0 nxt (rd p) (caller_wait b s)"
  by (cases "t_pc s"; cases "c_deleteData s"; cases "t_deleteData s";
      cases "delegates s nxt"; cases "delegates s th"; cases b)
     (simp_all add: ctl_defs data_defs tr_defs caller_wait_def caller_wait_returns_def sema_defs)

lemma tr_caller_copy:
  "ctl_inv rd d0 th nxt p s \<Longrightarrow> data_inv fn ds d0 th nxt (rd p) s \<Longrightarrow> trace_inv fn d0 nxt (rd p) s \<Longrightarrow>
   c_pc s = C_copy \<Longrightarrow> trace_inv fn d0 nxt (rd p) (caller_copy s)"
  by (cases "t_pc s"; cases "c_deleteData s"; cases "t_deleteData s";
      cases "delegates s nxt"; cases "delegates s th")
     (simp_all add: ctl_defs data_defs tr_defs caller_copy_def)

lemma tr_caller_lock:
  "ctl_inv rd d0 th nxt p s \<Longrightarrow> data_inv fn ds d0 th nxt (rd p) s \<Longrightarrow> trace_inv fn d0 nxt (rd p) s \<Longrightarrow>
   c_pc s = C_lock \<Longrightarrow> lock_at s (c_delegate s) = Unlocked \<Longrightarrow> trace_inv fn d0 nxt (rd p) (caller_lock s)"
  by (cases "t_pc s"; cases "c_deleteData s"; cases "t_deleteData s";
      cases "delegates s nxt"; cases "delegates s th")
     (simp_all add: ctl_defs data_defs tr_defs caller_lock_def lock_at_def)

lemma tr_caller_dec:
  "ctl_inv rd d0 th nxt p s \<Longrightarrow> data_inv fn ds d0 th nxt (rd p) s \<Longrightarrow> trace_inv fn d0 nxt (rd p) s \<Longrightarrow>
   c_pc s = C_dec \<Longrightarrow> trace_inv fn d0 nxt (rd p) (caller_dec s)"
  by (cases "t_pc s"; cases "c_deleteData s"; cases "t_deleteData s";
      cases "delegates s nxt"; cases "delegates s th")
     (simp_all add: ctl_defs data_defs tr_defs caller_dec_def)

lemma tr_caller_unlock:
  "ctl_inv rd d0 th nxt p s \<Longrightarrow> data_inv fn ds d0 th nxt (rd p) s \<Longrightarrow> trace_inv fn d0 nxt (rd p) s \<Longrightarrow>
   c_pc s = C_unlock \<Longrightarrow> trace_inv fn d0 nxt (rd p) (caller_unlock s)"
  by (cases "t_pc s"; cases "c_deleteData s"; cases "t_deleteData s";
      cases "delegates s nxt"; cases "delegates s th")
     (simp_all add: ctl_defs data_defs tr_defs caller_unlock_def)

lemma tr_caller_delete:
  "ctl_inv rd d0 th nxt p s \<Longrightarrow> data_inv fn ds d0 th nxt (rd p) s \<Longrightarrow> trace_inv fn d0 nxt (rd p) s \<Longrightarrow>
   c_pc s = C_delete \<Longrightarrow> trace_inv fn d0 nxt (rd p) (caller_delete s)"
  by (cases "t_pc s"; cases "c_deleteData s"; cases "t_deleteData s";
      cases "delegates s nxt"; cases "delegates s th")
     (simp_all add: ctl_defs data_defs tr_defs caller_delete_def)

lemma tr_caller_return:
  "ctl_inv rd d0 th nxt p s \<Longrightarrow> data_inv fn ds d0 th nxt (rd p) s \<Longrightarrow> trace_inv fn d0 nxt (rd p) s \<Longrightarrow>
   c_pc s = C_return \<Longrightarrow> trace_inv fn d0 nxt (rd p) (caller_return s)"
  by (cases "t_pc s"; cases "c_deleteData s"; cases "t_deleteData s";
      cases "delegates s nxt"; cases "delegates s th")
     (simp_all add: ctl_defs data_defs tr_defs caller_return_def)

lemma tr_target_deliver:
  "ctl_inv rd d0 th nxt p s \<Longrightarrow> data_inv fn ds d0 th nxt (rd p) s \<Longrightarrow> trace_inv fn d0 nxt (rd p) s \<Longrightarrow>
   t_pc s = T_idle \<Longrightarrow> trace_inv fn d0 nxt (rd p) (target_deliver rd s)"
  by (cases "c_pc s"; cases "c_deleteData s"; cases "t_deleteData s";
      cases "delegates s nxt"; cases "delegates s th")
     (simp_all add: ctl_defs data_defs tr_defs target_deliver_def lock_at_def)

lemma tr_target_lock:
  "ctl_inv rd d0 th nxt p s \<Longrightarrow> data_inv fn ds d0 th nxt (rd p) s \<Longrightarrow> trace_inv fn d0 nxt (rd p) s \<Longrightarrow>
   t_pc s = T_lock \<Longrightarrow> lock_at s (t_this s) = Unlocked \<Longrightarrow> trace_inv fn d0 nxt (rd p) (target_lock s)"
  by (cases "c_pc s"; cases "c_deleteData s"; cases "t_deleteData s";
      cases "delegates s nxt"; cases "delegates s th")
     (simp_all add: ctl_defs data_defs tr_defs target_lock_def lock_at_def)

lemma tr_target_check:
  "ctl_inv rd d0 th nxt p s \<Longrightarrow> data_inv fn ds d0 th nxt (rd p) s \<Longrightarrow> trace_inv fn d0 nxt (rd p) s \<Longrightarrow>
   t_pc s = T_check \<Longrightarrow> trace_inv fn d0 nxt (rd p) (target_check fn s)"
  by (cases "c_pc s"; cases "c_deleteData s"; cases "t_deleteData s";
      cases "delegates s nxt"; cases "delegates s th")
     (simp_all add: ctl_defs data_defs tr_defs target_check_def)

lemma tr_target_signal:
  "ctl_inv rd d0 th nxt p s \<Longrightarrow> data_inv fn ds d0 th nxt (rd p) s \<Longrightarrow> trace_inv fn d0 nxt (rd p) s \<Longrightarrow>
   t_pc s = T_signal \<Longrightarrow> trace_inv fn d0 nxt (rd p) (target_signal s)"
  by (cases "c_pc s"; cases "c_deleteData s"; cases "t_deleteData s";
      cases "delegates s nxt"; cases "delegates s th")
     (simp_all add: ctl_defs data_defs tr_defs target_signal_def sema_defs)

lemma tr_target_dec:
  "ctl_inv rd d0 th nxt p s \<Longrightarrow> data_inv fn ds d0 th nxt (rd p) s \<Longrightarrow> trace_inv fn d0 nxt (rd p) s \<Longrightarrow>
   t_pc s = T_dec \<Longrightarrow> trace_inv fn d0 nxt (rd p) (target_dec s)"
  by (cases "c_pc s"; cases "c_deleteData s"; cases "t_deleteData s";
      cases "delegates s nxt"; cases "delegates s th")
     (simp_all add: ctl_defs data_defs tr_defs target_dec_def)

lemma tr_target_unlock:
  "ctl_inv rd d0 th nxt p s \<Longrightarrow> data_inv fn ds d0 th nxt (rd p) s \<Longrightarrow> trace_inv fn d0 nxt (rd p) s \<Longrightarrow>
   t_pc s = T_unlock \<Longrightarrow> trace_inv fn d0 nxt (rd p) (target_unlock s)"
  by (cases "c_pc s"; cases "c_deleteData s"; cases "t_deleteData s";
      cases "delegates s nxt"; cases "delegates s th")
     (simp_all add: ctl_defs data_defs tr_defs target_unlock_def)

lemma tr_target_delete:
  "ctl_inv rd d0 th nxt p s \<Longrightarrow> data_inv fn ds d0 th nxt (rd p) s \<Longrightarrow> trace_inv fn d0 nxt (rd p) s \<Longrightarrow>
   t_pc s = T_delete \<Longrightarrow> trace_inv fn d0 nxt (rd p) (target_delete s)"
  by (cases "c_pc s"; cases "c_deleteData s"; cases "t_deleteData s";
      cases "delegates s nxt"; cases "delegates s th")
     (simp_all add: ctl_defs data_defs tr_defs target_delete_def)

subsection \<open>Progress\<close>

text \<open>Every statement advances its thread, so a run has at most 15 steps.\<close>

lemma rk_caller_start:
  "\<not> fault (caller_start fn s) \<Longrightarrow> c_pc s = C_start \<Longrightarrow> rank s < rank (caller_start fn s)"
  by (auto simp: rank_def caller_start_def split: option.splits if_splits)

lemma rk_caller_wait:
  "\<not> fault (caller_wait b s) \<Longrightarrow> c_pc s = C_wait \<Longrightarrow> rank s < rank (caller_wait b s)"
  by (auto simp: rank_def caller_wait_def split: option.splits if_splits list.splits)

lemma rk_caller_copy:
  "\<not> fault (caller_copy s) \<Longrightarrow> c_pc s = C_copy \<Longrightarrow> rank s < rank (caller_copy s)"
  by (auto simp: rank_def caller_copy_def split: option.splits if_splits list.splits)

lemma rk_caller_lock:
  "\<not> fault (caller_lock s) \<Longrightarrow> c_pc s = C_lock \<Longrightarrow> rank s < rank (caller_lock s)"
  by (auto simp: rank_def caller_lock_def split: option.splits if_splits list.splits)

lemma rk_caller_dec:
  "\<not> fault (caller_dec s) \<Longrightarrow> c_pc s = C_dec \<Longrightarrow> rank s < rank (caller_dec s)"
  by (auto simp: rank_def caller_dec_def split: option.splits if_splits list.splits)

lemma rk_caller_unlock:
  "\<not> fault (caller_unlock s) \<Longrightarrow> c_pc s = C_unlock \<Longrightarrow> rank s < rank (caller_unlock s)"
  by (auto simp: rank_def caller_unlock_def split: option.splits if_splits list.splits)

lemma rk_caller_delete:
  "\<not> fault (caller_delete s) \<Longrightarrow> c_pc s = C_delete \<Longrightarrow> rank s < rank (caller_delete s)"
  by (auto simp: rank_def caller_delete_def split: option.splits if_splits list.splits)

lemma rk_caller_return:
  "\<not> fault (caller_return s) \<Longrightarrow> c_pc s = C_return \<Longrightarrow> rank s < rank (caller_return s)"
  by (auto simp: rank_def caller_return_def split: option.splits if_splits list.splits)

lemma rk_target_deliver:
  "queue s \<noteq> [] \<Longrightarrow> \<not> fault (target_deliver rd s) \<Longrightarrow> t_pc s = T_idle \<Longrightarrow> rank s < rank (target_deliver rd s)"
  by (auto simp: rank_def target_deliver_def split: option.splits if_splits list.splits)

lemma rk_target_lock:
  "\<not> fault (target_lock s) \<Longrightarrow> t_pc s = T_lock \<Longrightarrow> rank s < rank (target_lock s)"
  by (auto simp: rank_def target_lock_def split: option.splits if_splits list.splits)

lemma rk_target_check:
  "\<not> fault (target_check fn s) \<Longrightarrow> t_pc s = T_check \<Longrightarrow> rank s < rank (target_check fn s)"
  by (auto simp: rank_def target_check_def split: option.splits if_splits list.splits)

lemma rk_target_signal:
  "\<not> fault (target_signal s) \<Longrightarrow> t_pc s = T_signal \<Longrightarrow> rank s < rank (target_signal s)"
  by (auto simp: rank_def target_signal_def split: option.splits if_splits list.splits)

lemma rk_target_dec:
  "\<not> fault (target_dec s) \<Longrightarrow> t_pc s = T_dec \<Longrightarrow> rank s < rank (target_dec s)"
  by (auto simp: rank_def target_dec_def split: option.splits if_splits list.splits)

lemma rk_target_unlock:
  "\<not> fault (target_unlock s) \<Longrightarrow> t_pc s = T_unlock \<Longrightarrow> rank s < rank (target_unlock s)"
  by (auto simp: rank_def target_unlock_def split: option.splits if_splits list.splits)

lemma rk_target_delete:
  "\<not> fault (target_delete s) \<Longrightarrow> t_pc s = T_delete \<Longrightarrow> rank s < rank (target_delete s)"
  by (auto simp: rank_def target_delete_def split: option.splits if_splits list.splits)

lemmas rk_steps = rk_caller_start rk_caller_wait rk_caller_copy rk_caller_lock rk_caller_dec rk_caller_unlock rk_caller_delete rk_caller_return rk_target_deliver rk_target_lock rk_target_check rk_target_signal rk_target_dec rk_target_unlock rk_target_delete

lemma step_rank:
  assumes "\<not> fault s'" "step rd fn e s = Some s'"
  shows "rank s < rank s'"
proof (cases e)
  case (Run t)
  show ?thesis
  proof (cases t)
    case Caller
    with Run assms show ?thesis
      by (cases "c_pc s") (auto simp: step_def rk_steps split: if_splits)
  next
    case Target
    with Run assms show ?thesis
      by (cases "t_pc s") (auto simp: step_def rk_steps split: if_splits)
  qed
next
  case Timeout
  with assms show ?thesis
    by (auto simp: step_def rk_steps split: if_splits)
qed

lemma rank_le: "rank s \<le> 15"
  by (cases "c_pc s"; cases "t_pc s") (simp_all add: rank_def)

lemma rank_done: "rank s = 15 \<Longrightarrow> c_pc s = C_done \<and> t_pc s = T_done"
  by (cases "c_pc s"; cases "t_pc s") (simp_all add: rank_def)

subsection \<open>Runs\<close>

text \<open>The invariant holds in every state a run reaches after its first step. A thread can
  always move until both are done, so every run can be completed.\<close>

lemma inv_start:
  "ds th = Some d0 \<Longrightarrow> ds nxt = None \<Longrightarrow> m_thread d0 \<noteq> null \<Longrightarrow>
   call_inv rd fn ds d0 th nxt p (caller_start fn (begin_call ds nxt th p))"
  by (simp add: call_inv_def ctl_start data_start tr_start)

lemma inv_not_start: "call_inv rd fn ds d0 th nxt p s \<Longrightarrow> c_pc s \<noteq> C_start"
  by (simp add: call_inv_def ctl_inv_def)

lemma inv_step_caller:
  assumes "call_inv rd fn ds d0 th nxt p s" "step rd fn (Run Caller) s = Some s'"
  shows "call_inv rd fn ds d0 th nxt p s'"
  using assms inv_not_start[OF assms(1)]
  by (cases "c_pc s")
     (auto simp: step_def call_inv_def ctl_caller_wait ctl_caller_copy ctl_caller_lock
        ctl_caller_dec ctl_caller_unlock ctl_caller_delete ctl_caller_return
        data_caller_wait data_caller_copy data_caller_lock
        data_caller_dec data_caller_unlock data_caller_delete data_caller_return
        tr_caller_wait tr_caller_copy tr_caller_lock
        tr_caller_dec tr_caller_unlock tr_caller_delete tr_caller_return
      split: if_splits)

lemma inv_step_timeout:
  assumes "call_inv rd fn ds d0 th nxt p s" "step rd fn Timeout s = Some s'"
  shows "call_inv rd fn ds d0 th nxt p s'"
  using assms
  by (auto simp: step_def call_inv_def ctl_caller_wait data_caller_wait tr_caller_wait
      split: if_splits)

lemma inv_step_target:
  assumes "call_inv rd fn ds d0 th nxt p s" "step rd fn (Run Target) s = Some s'"
  shows "call_inv rd fn ds d0 th nxt p s'"
  using assms
  by (cases "t_pc s")
     (auto simp: step_def call_inv_def ctl_target_deliver ctl_target_lock ctl_target_check
        ctl_target_signal ctl_target_dec ctl_target_unlock ctl_target_delete
        data_target_deliver data_target_lock data_target_check
        data_target_signal data_target_dec data_target_unlock data_target_delete
        tr_target_deliver tr_target_lock tr_target_check
        tr_target_signal tr_target_dec tr_target_unlock tr_target_delete
      split: if_splits)

lemma inv_step:
  "call_inv rd fn ds d0 th nxt p s \<Longrightarrow> step rd fn e s = Some s' \<Longrightarrow> call_inv rd fn ds d0 th nxt p s'"
proof (cases e)
  case (Run t)
  assume "call_inv rd fn ds d0 th nxt p s" "step rd fn e s = Some s'"
  with Run show ?thesis
    by (cases t) (auto intro: inv_step_caller inv_step_target)
next
  case Timeout
  assume "call_inv rd fn ds d0 th nxt p s" "step rd fn e s = Some s'"
  with Timeout show ?thesis by (auto intro: inv_step_timeout)
qed

lemma inv_run:
  "call_inv rd fn ds d0 th nxt p s \<Longrightarrow> run rd fn evs s = Some s' \<Longrightarrow> call_inv rd fn ds d0 th nxt p s'"
  by (induction evs arbitrary: s) (auto split: option.splits dest: inv_step)

lemma step_begin:
  "step rd fn e (begin_call ds nxt th p) = Some s1 \<Longrightarrow>
   e = Run Caller \<and> s1 = caller_start fn (begin_call ds nxt th p)"
  by (auto simp: step_def begin_call_def split: if_splits event.splits tid.splits)

lemma run_begin:
  assumes "ds th = Some d0" "ds nxt = None" "m_thread d0 \<noteq> null"
    and "run rd fn evs (begin_call ds nxt th p) = Some s"
  shows "evs = [] \<and> s = begin_call ds nxt th p \<or> call_inv rd fn ds d0 th nxt p s"
proof (cases evs)
  case Nil
  with assms(4) show ?thesis by simp
next
  case (Cons e es)
  with assms(4) obtain s1 where s1: "step rd fn e (begin_call ds nxt th p) = Some s1"
    and r: "run rd fn es s1 = Some s"
    by (auto split: option.splits)
  from step_begin[OF s1] have "s1 = caller_start fn (begin_call ds nxt th p)" by simp
  with inv_start[OF assms(1-3)] have "call_inv rd fn ds d0 th nxt p s1" by simp
  from inv_run[OF this r] show ?thesis by simp
qed

lemma run_append:
  "run rd fn (xs @ ys) s = (case run rd fn xs s of None \<Rightarrow> None | Some s' \<Rightarrow> run rd fn ys s')"
  by (induction xs arbitrary: s) (auto split: option.splits)

lemma progress:
  assumes "call_inv rd fn ds d0 th nxt p s" "c_pc s \<noteq> C_done \<or> t_pc s \<noteq> T_done"
  shows "step rd fn (Run Caller) s \<noteq> None \<or> step rd fn (Run Target) s \<noteq> None"
  using assms
  by (cases "c_pc s"; cases "t_pc s"; cases "delegates s nxt"; cases "delegates s th")
     (auto simp: call_inv_def ctl_defs data_defs step_def lock_at_def
        caller_wait_returns_def sema_defs)

lemma inv_no_fault: "call_inv rd fn ds d0 th nxt p s \<Longrightarrow> \<not> fault s"
  by (simp add: call_inv_def ctl_inv_def)

lemma completes:
  "call_inv rd fn ds d0 th nxt p s \<Longrightarrow> 15 - rank s = n \<Longrightarrow>
   \<exists>evs s'. run rd fn evs s = Some s' \<and> c_pc s' = C_done \<and> t_pc s' = T_done"
proof (induction n arbitrary: s rule: less_induct)
  case (less n)
  show ?case
  proof (cases "c_pc s = C_done \<and> t_pc s = T_done")
    case True
    then have "run rd fn [] s = Some s \<and> c_pc s = C_done \<and> t_pc s = T_done" by simp
    then show ?thesis by blast
  next
    case False
    then have "c_pc s \<noteq> C_done \<or> t_pc s \<noteq> T_done" by simp
    from progress[OF less.prems(1) this]
    obtain e s1 where st: "step rd fn e s = Some s1" by auto
    from inv_step[OF less.prems(1) st] have i1: "call_inv rd fn ds d0 th nxt p s1" .
    from step_rank[OF inv_no_fault[OF i1] st] have "rank s < rank s1" .
    with rank_le[of s1] less.prems(2) have "15 - rank s1 < n" by simp
    from less.IH[OF this i1 refl]
    obtain evs s' where "run rd fn evs s1 = Some s'" "c_pc s' = C_done" "t_pc s' = T_done"
      by blast
    with st have "run rd fn (e # evs) s = Some s' \<and> c_pc s' = C_done \<and> t_pc s' = T_done"
      by simp
    then show ?thesis by blast
  qed
qed

subsection \<open>Consequences of the invariant\<close>

text \<open>The operations made, the reference count and the calling delegate, from the invariant.\<close>

lemma inv_ops:
  "call_inv rd fn ds d0 th nxt p s \<Longrightarrow>
   ops_of Caller (trace s) =
     caller_ops nxt (m_thread d0) (m_timeout d0) (succeeded s) (c_deleteData s) (c_pc s) \<and>
   ops_of Target (trace s) =
     target_ops nxt (rd p) (fn (m_callable d0) (rd p)) (invoked s) (t_deleteData s) (t_pc s) \<and>
   list_all lock_discipline (trace s)"
  by (simp add: call_inv_def trace_inv_def)

lemmas ops_defs = dispatch_ops_def waited_ops_def delete_ops_def tested_ops_def

lemma invoke_caller_ops: "filter is_invoke (caller_ops nxt thr tmo b del c) = []"
  by (cases c) (simp_all add: ops_defs)

lemma invoke_target_ops:
  "filter is_invoke (target_ops nxt p r ivk del t) =
     (if t = T_signal \<or> (ivk \<and> t_tested t) then [Op_invoke p r] else [])"
  by (cases t) (simp_all add: ops_defs)

lemma sees_two_target_ops:
  "filter sees_two (target_ops nxt p r ivk del t) =
     (if t = T_signal \<or> (ivk \<and> t_tested t) then [Op_test_ref 2] else [])"
  by (cases t) (simp_all add: ops_defs)

lemma dec_caller_ops:
  "filter is_dec (caller_ops nxt thr tmo b del c) =
     (if c_decd c then [Op_dec_ref (if del then 0 else 1)] else [])"
  by (cases c) (simp_all add: ops_defs)

lemma dec_target_ops:
  "filter is_dec (target_ops nxt p r ivk del t) =
     (if t_decd t then [Op_dec_ref (if del then 0 else 1)] else [])"
  by (cases t) (simp_all add: ops_defs)

lemma delete_caller_ops:
  "filter is_delete (caller_ops nxt thr tmo b del c) =
     (if c_left c \<and> del then [Op_delete_msg (Suc nxt), Op_delete_delegate nxt] else [])"
  by (cases c) (simp_all add: ops_defs)

lemma delete_target_ops:
  "filter is_delete (target_ops nxt p r ivk del t) =
     (if t = T_done \<and> del then [Op_delete_msg (Suc nxt), Op_delete_delegate nxt] else [])"
  by (cases t) (simp_all add: ops_defs)

lemma begin_trace: "trace (begin_call ds nxt th p) = []"
  by (simp add: begin_call_def)

lemma inv_ctl: "call_inv rd fn ds d0 th nxt p s \<Longrightarrow> ctl_inv rd d0 th nxt p s"
  by (simp add: call_inv_def)

lemma inv_data: "call_inv rd fn ds d0 th nxt p s \<Longrightarrow> data_inv fn ds d0 th nxt (rd p) s"
  by (simp add: call_inv_def)

lemma inv_this:
  assumes "call_inv rd fn ds d0 th nxt p s"
  shows "\<exists>this. delegates s th = Some this \<and>
           this_ok d0 (fn (m_callable d0) (rd p)) (c_pc s) (c_ret s) this \<and>
           succeeded s = m_success this \<and>
           (c_pc s \<noteq> C_wait \<and> m_success this \<longrightarrow> invoked s)"
  using inv_ctl[OF assms] inv_data[OF assms]
  by (cases "delegates s th") (simp_all add: ctl_inv_def data_inv_def succeeded_def)

lemma inv_frame:
  assumes "call_inv rd fn ds d0 th nxt p s"
  shows "next_addr s = nxt + 2 \<and> th \<noteq> nxt \<and>
         (\<forall>a. a \<noteq> th \<longrightarrow> a \<noteq> nxt \<longrightarrow> delegates s a = ds a)"
  using inv_ctl[OF assms] inv_data[OF assms]
  by (simp add: ctl_inv_def data_inv_def)

lemma wait_caller_ops:
  "Op_wait tmo' b' \<in> set (caller_ops nxt thr tmo b del c) \<longleftrightarrow>
     c \<noteq> C_start \<and> c \<noteq> C_wait \<and> tmo' = tmo \<and> b' = b"
  by (cases c) (auto simp: ops_defs)

lemma read_ret_caller_ops:
  "Op_read_ret \<in> set (caller_ops nxt thr tmo b del c) \<longleftrightarrow> c_copied c \<and> b"
  by (cases c) (auto simp: ops_defs)

lemma invoke_in_target_ops:
  "Op_invoke p' r' \<in> set (target_ops nxt p r ivk del t) \<longleftrightarrow>
     (t = T_signal \<or> (ivk \<and> t_tested t)) \<and> p' = p \<and> r' = r"
  by (cases t) (auto simp: ops_defs)

lemma invoked_at_tested: "invoked_at c del t \<Longrightarrow> t = T_signal \<or> t_tested t"
  by (cases t) simp_all

lemma tp_caller_wait: "\<exists>ext. trace (caller_wait b s) = trace s @ ext"
  by (simp add: caller_wait_def split: option.splits list.splits)

lemma tp_caller_copy: "\<exists>ext. trace (caller_copy s) = trace s @ ext"
  by (simp add: caller_copy_def split: option.splits list.splits)

lemma tp_caller_lock: "\<exists>ext. trace (caller_lock s) = trace s @ ext"
  by (simp add: caller_lock_def split: option.splits list.splits)

lemma tp_caller_dec: "\<exists>ext. trace (caller_dec s) = trace s @ ext"
  by (simp add: caller_dec_def split: option.splits list.splits)

lemma tp_caller_unlock: "\<exists>ext. trace (caller_unlock s) = trace s @ ext"
  by (simp add: caller_unlock_def split: option.splits list.splits)

lemma tp_caller_delete: "\<exists>ext. trace (caller_delete s) = trace s @ ext"
  by (simp add: caller_delete_def split: option.splits list.splits)

lemma tp_caller_return: "\<exists>ext. trace (caller_return s) = trace s @ ext"
  by (simp add: caller_return_def split: option.splits list.splits)

lemma tp_target_deliver: "\<exists>ext. trace (target_deliver rd s) = trace s @ ext"
  by (simp add: target_deliver_def split: option.splits list.splits)

lemma tp_target_lock: "\<exists>ext. trace (target_lock s) = trace s @ ext"
  by (simp add: target_lock_def split: option.splits list.splits)

lemma tp_target_check: "\<exists>ext. trace (target_check fn s) = trace s @ ext"
  by (simp add: target_check_def split: option.splits list.splits)

lemma tp_target_signal: "\<exists>ext. trace (target_signal s) = trace s @ ext"
  by (simp add: target_signal_def split: option.splits list.splits)

lemma tp_target_dec: "\<exists>ext. trace (target_dec s) = trace s @ ext"
  by (simp add: target_dec_def split: option.splits list.splits)

lemma tp_target_unlock: "\<exists>ext. trace (target_unlock s) = trace s @ ext"
  by (simp add: target_unlock_def split: option.splits list.splits)

lemma tp_target_delete: "\<exists>ext. trace (target_delete s) = trace s @ ext"
  by (simp add: target_delete_def split: option.splits list.splits)

lemma tp_caller_start: "\<exists>ext. trace (caller_start fn s) = trace s @ ext"
  by (simp add: caller_start_def split: option.splits list.splits)

lemma step_trace_prefix:
  assumes "step rd fn e s = Some s'"
  shows "\<exists>ext. trace s' = trace s @ ext"
proof (cases e)
  case (Run t)
  show ?thesis
  proof (cases t)
    case Caller
    with Run assms show ?thesis
      using tp_caller_start tp_caller_wait tp_caller_copy tp_caller_lock tp_caller_dec
        tp_caller_unlock tp_caller_delete tp_caller_return
      by (cases "c_pc s") (auto simp: step_def split: if_splits)
  next
    case Target
    with Run assms show ?thesis
      using tp_target_deliver tp_target_lock tp_target_check tp_target_signal tp_target_dec
        tp_target_unlock tp_target_delete
      by (cases "t_pc s") (auto simp: step_def split: if_splits)
  qed
next
  case Timeout
  with assms show ?thesis
    using tp_caller_wait by (auto simp: step_def split: if_splits)
qed

lemma run_trace_prefix: "run rd fn evs s = Some s' \<Longrightarrow> \<exists>ext. trace s' = trace s @ ext"
proof (induction evs arbitrary: s)
  case Nil
  then show ?case by simp
next
  case (Cons e es)
  then obtain s1 where st: "step rd fn e s = Some s1" and r: "run rd fn es s1 = Some s'"
    by (auto split: option.splits)
  from step_trace_prefix[OF st] obtain t1 where "trace s1 = trace s @ t1" by blast
  moreover from Cons.IH[OF r] obtain t2 where "trace s' = trace s1 @ t2" by blast
  ultimately have "trace s' = trace s @ (t1 @ t2)" by simp
  then show ?case by blast
qed

lemma ops_of_mono: "trace s' = trace s @ ext \<Longrightarrow> set (ops_of t (trace s)) \<subseteq> set (ops_of t (trace s'))"
  by (auto simp: ops_of_def)

lemma completes_from:
  assumes "ds th = Some d0" "ds nxt = None" "m_thread d0 \<noteq> null"
    and "run rd fn evs (begin_call ds nxt th p) = Some s"
  shows "\<exists>evs' s'. run rd fn evs' s = Some s' \<and> c_pc s' = C_done \<and> t_pc s' = T_done \<and>
           call_inv rd fn ds d0 th nxt p s'"
proof -
  from run_begin[OF assms]
  consider "s = begin_call ds nxt th p" | "call_inv rd fn ds d0 th nxt p s" by blast
  then show ?thesis
  proof cases
    case 1
    let ?s1 = "caller_start fn (begin_call ds nxt th p)"
    have i1: "call_inv rd fn ds d0 th nxt p ?s1" by (rule inv_start[OF assms(1-3)])
    from completes[OF i1 refl] obtain evs' s' where
      r: "run rd fn evs' ?s1 = Some s'" and d: "c_pc s' = C_done" "t_pc s' = T_done" by blast
    have "step rd fn (Run Caller) s = Some ?s1"
      using 1 by (simp add: step_def begin_call_def)
    with r have "run rd fn (Run Caller # evs') s = Some s'" by simp
    with d inv_run[OF i1 r] show ?thesis by blast
  next
    case 2
    from completes[OF 2 refl] obtain evs' s' where
      r: "run rd fn evs' s = Some s'" and d: "c_pc s' = C_done" "t_pc s' = T_done" by blast
    with inv_run[OF 2 r] show ?thesis by blast
  qed
qed

lemma inv_decrements:
  assumes "call_inv rd fn ds d0 th nxt p s"
  shows "decrements Caller (trace s) =
           (if c_decd (c_pc s) then [Op_dec_ref (if c_deleteData s then 0 else 1)] else []) \<and>
         decrements Target (trace s) =
           (if t_decd (t_pc s) then [Op_dec_ref (if t_deleteData s then 0 else 1)] else []) \<and>
         releases Caller (trace s) =
           (if c_left (c_pc s) \<and> c_deleteData s
            then [Op_delete_msg (Suc nxt), Op_delete_delegate nxt] else []) \<and>
         releases Target (trace s) =
           (if t_pc s = T_done \<and> t_deleteData s
            then [Op_delete_msg (Suc nxt), Op_delete_delegate nxt] else [])"
  using inv_ops[OF assms]
  by (simp add: decrements_def releases_def dec_caller_ops dec_target_ops
      delete_caller_ops delete_target_ops)

lemma inv_members:
  assumes "call_inv rd fn ds d0 th nxt p s"
  shows "(Op_wait tmo b \<in> set (ops_of Caller (trace s)) \<longleftrightarrow>
            c_pc s \<noteq> C_start \<and> c_pc s \<noteq> C_wait \<and> tmo = m_timeout d0 \<and> b = succeeded s) \<and>
         (Op_read_ret \<in> set (ops_of Caller (trace s)) \<longleftrightarrow>
            c_copied (c_pc s) \<and> succeeded s) \<and>
         (Op_invoke p' r' \<in> set (ops_of Target (trace s)) \<longleftrightarrow>
            (t_pc s = T_signal \<or> (invoked s \<and> t_tested (t_pc s))) \<and>
            p' = rd p \<and> r' = fn (m_callable d0) (rd p))"
  using inv_ops[OF assms]
  by (simp add: wait_caller_ops read_ret_caller_ops invoke_in_target_ops)

lemma refcount_facts:
  assumes "call_inv rd fn ds d0 th nxt p s"
  shows "\<not> fault s \<and>
   (\<not> c_decd (c_pc s) \<and> \<not> t_decd (t_pc s) \<longrightarrow>
      (\<exists>cl. delegates s nxt = Some cl \<and> m_refCnt cl = 2)) \<and>
   (\<forall>cl. delegates s nxt = Some cl \<longrightarrow>
      m_refCnt cl = 2 - (if c_decd (c_pc s) then 1 else 0) - (if t_decd (t_pc s) then 1 else 0)) \<and>
   (c_left (c_pc s) \<and> c_deleteData s \<or> t_pc s = T_done \<and> t_deleteData s \<longrightarrow>
      delegates s nxt = None \<and> msgs s (Suc nxt) = None) \<and>
   (c_deleteData s \<longrightarrow> c_decd (c_pc s) \<and> \<not> t_deleteData s) \<and>
   (t_deleteData s \<longrightarrow> t_decd (t_pc s)) \<and>
   (c_pc s = C_done \<and> t_pc s = T_done \<longrightarrow> c_deleteData s \<or> t_deleteData s)"
  using inv_ctl[OF assms]
  by (cases "c_pc s"; cases "t_pc s"; cases "delegates s nxt")
     (auto simp: ctl_defs)

lemma timed_out_facts:
  assumes "call_inv rd fn ds d0 th nxt p s"
    and "Op_wait (m_timeout d0) False \<in> set (ops_of Caller (trace s))"
  shows "\<not> fault s \<and>
         (\<exists>this. delegates s th = Some this \<and> \<not> IsSuccess this \<and>
            GetRetVal this = m_retVal d0) \<and>
         Op_read_ret \<notin> set (ops_of Caller (trace s)) \<and>
         (c_pc s = C_done \<longrightarrow> c_ret s = m_retVal d0)"
proof -
  from inv_members[OF assms(1)] assms(2) have su: "\<not> succeeded s"
    by simp
  from inv_this[OF assms(1)] obtain this where
    th: "delegates s th = Some this"
    and ok: "this_ok d0 (fn (m_callable d0) (rd p)) (c_pc s) (c_ret s) this"
    and eq: "succeeded s = m_success this"
    by blast
  from su eq have ms: "\<not> m_success this" by simp
  from su inv_members[OF assms(1)] have "Op_read_ret \<notin> set (ops_of Caller (trace s))"
    by simp
  moreover from ok ms have "GetRetVal this = m_retVal d0 \<and> (c_pc s = C_done \<longrightarrow> c_ret s = m_retVal d0)"
    by (simp add: this_ok_def GetRetVal_def)
  moreover from inv_ctl[OF assms(1)] have "\<not> fault s" by (simp add: ctl_inv_def)
  ultimately show ?thesis using th ms by (simp add: IsSuccess_def)
qed

subsection \<open>Two calls\<close>

text \<open>
  A step of one call keeps the control invariant of both calls and changes neither the
  clone nor the message of the other call.
\<close>

lemma ctl_locals:
  "ctl_inv rd d0 th nxt p s \<Longrightarrow>
   c_this s = th \<and> c_delegate s = nxt \<and> c_msg s = Suc nxt \<and> th \<noteq> nxt \<and>
   delegates s th \<noteq> None \<and> c_pc s \<noteq> C_start \<and> \<not> fault s \<and>
   (t_pc s \<noteq> T_idle \<longrightarrow> t_this s = nxt) \<and>
   (t_pc s \<noteq> T_idle \<longrightarrow> t_pc s \<noteq> T_done \<longrightarrow> t_msg s = Suc nxt)"
  by (simp add: ctl_inv_def split: if_splits)

lemma ctl_thread:
  "m_thread d1 = m_thread d0 \<Longrightarrow> ctl_inv rd d1 th nxt p s = ctl_inv rd d0 th nxt p s"
  by (simp add: ctl_inv_def)

lemma ctl_share:
  assumes "delegates h nxt = delegates s nxt" "msgs h (Suc nxt) = msgs s (Suc nxt)"
    and "delegates h th \<noteq> None" "delegates s th \<noteq> None"
  shows "ctl_inv rd d0 th nxt p (share_heap h s) = ctl_inv rd d0 th nxt p s"
  using assms by (simp add: ctl_inv_def gone_def share_heap_def cong: option.case_cong)

lemma ctl_begin:
  assumes "not_begun th p s" "delegates s th = Some t" "m_thread t = m_thread d0"
    and "m_thread d0 \<noteq> null" "th \<noteq> next_addr s"
  shows "ctl_inv rd d0 th (next_addr s) p (caller_start fn s)"
  using assms
  by (simp add: not_begun_def ctl_defs caller_start_def Clone_def copy_ctor_def Swap_def)

lemma frame_begin:
  assumes "not_begun th p s" "delegates s th = Some t" "m_thread t \<noteq> null"
  shows "next_addr (caller_start fn s) = next_addr s + 2 \<and>
         c_delegate (caller_start fn s) = next_addr s \<and>
         c_pc (caller_start fn s) \<noteq> C_start \<and>
         (\<forall>x. x \<noteq> next_addr s \<longrightarrow> delegates (caller_start fn s) x = delegates s x) \<and>
         (\<forall>x. x \<noteq> Suc (next_addr s) \<longrightarrow> msgs (caller_start fn s) x = msgs s x)"
  using assms by (simp add: not_begun_def caller_start_def)

lemma step_not_begun:
  assumes "not_begun th p s" "step rd fn e s = Some s'"
  shows "e = Run Caller \<and> s' = caller_start fn s"
  using assms
  by (cases e) (auto simp: not_begun_def step_def split: tid.splits if_splits)

lemma ctl_step:
  assumes "ctl_inv rd d0 th nxt p s" "step rd fn e s = Some s'"
  shows "ctl_inv rd d0 th nxt p s'"
proof (cases e)
  case (Run t)
  show ?thesis
  proof (cases t)
    case Caller
    with Run assms ctl_locals[OF assms(1)] show ?thesis
      by (cases "c_pc s")
         (auto simp: step_def ctl_caller_wait ctl_caller_copy ctl_caller_lock
            ctl_caller_dec ctl_caller_unlock ctl_caller_delete ctl_caller_return
          split: if_splits)
  next
    case Target
    with Run assms show ?thesis
      by (cases "t_pc s")
         (auto simp: step_def ctl_target_deliver ctl_target_lock ctl_target_check
            ctl_target_signal ctl_target_dec ctl_target_unlock ctl_target_delete
          split: if_splits)
  qed
next
  case Timeout
  with assms show ?thesis
    by (auto simp: step_def ctl_caller_wait split: if_splits)
qed

lemma fr_caller_wait:
  "c_this s = th \<Longrightarrow> c_delegate s = nxt \<Longrightarrow> th \<noteq> nxt \<Longrightarrow> frame th nxt s (caller_wait b s)"
  by (simp add: frame_def caller_wait_def split: option.splits)

lemma fr_caller_copy:
  "c_this s = th \<Longrightarrow> c_delegate s = nxt \<Longrightarrow> th \<noteq> nxt \<Longrightarrow> frame th nxt s (caller_copy s)"
  by (simp add: frame_def caller_copy_def split: option.splits)

lemma fr_caller_lock:
  "c_this s = th \<Longrightarrow> c_delegate s = nxt \<Longrightarrow> th \<noteq> nxt \<Longrightarrow> frame th nxt s (caller_lock s)"
  by (simp add: frame_def caller_lock_def split: option.splits)

lemma fr_caller_dec:
  "c_this s = th \<Longrightarrow> c_delegate s = nxt \<Longrightarrow> th \<noteq> nxt \<Longrightarrow> frame th nxt s (caller_dec s)"
  by (simp add: frame_def caller_dec_def split: option.splits)

lemma fr_caller_unlock:
  "c_this s = th \<Longrightarrow> c_delegate s = nxt \<Longrightarrow> th \<noteq> nxt \<Longrightarrow> frame th nxt s (caller_unlock s)"
  by (simp add: frame_def caller_unlock_def split: option.splits)

lemma fr_caller_delete:
  "c_this s = th \<Longrightarrow> c_delegate s = nxt \<Longrightarrow> c_msg s = Suc nxt \<Longrightarrow> th \<noteq> nxt \<Longrightarrow>
   frame th nxt s (caller_delete s)"
  by (simp add: frame_def caller_delete_def split: option.splits)

lemma fr_caller_return:
  "c_this s = th \<Longrightarrow> c_delegate s = nxt \<Longrightarrow> th \<noteq> nxt \<Longrightarrow> frame th nxt s (caller_return s)"
  by (simp add: frame_def caller_return_def split: option.splits)

lemma fr_target_deliver: "frame th nxt s (target_deliver rd s)"
  by (simp add: frame_def target_deliver_def split: option.splits list.splits)

lemma fr_target_lock:
  "t_this s = nxt \<Longrightarrow> th \<noteq> nxt \<Longrightarrow> frame th nxt s (target_lock s)"
  by (simp add: frame_def target_lock_def split: option.splits)

lemma fr_target_check:
  "t_this s = nxt \<Longrightarrow> th \<noteq> nxt \<Longrightarrow> frame th nxt s (target_check fn s)"
  by (simp add: frame_def target_check_def split: option.splits)

lemma fr_target_signal:
  "t_this s = nxt \<Longrightarrow> th \<noteq> nxt \<Longrightarrow> frame th nxt s (target_signal s)"
  by (simp add: frame_def target_signal_def split: option.splits)

lemma fr_target_dec:
  "t_this s = nxt \<Longrightarrow> th \<noteq> nxt \<Longrightarrow> frame th nxt s (target_dec s)"
  by (simp add: frame_def target_dec_def split: option.splits)

lemma fr_target_unlock:
  "t_this s = nxt \<Longrightarrow> th \<noteq> nxt \<Longrightarrow> frame th nxt s (target_unlock s)"
  by (simp add: frame_def target_unlock_def split: option.splits)

lemma fr_target_delete:
  "t_this s = nxt \<Longrightarrow> t_msg s = Suc nxt \<Longrightarrow> th \<noteq> nxt \<Longrightarrow> frame th nxt s (target_delete s)"
  by (simp add: frame_def target_delete_def split: option.splits)

lemma frame_step:
  assumes "ctl_inv rd d0 th nxt p s" "step rd fn e s = Some s'"
  shows "frame th nxt s s'"
proof (cases e)
  case (Run t)
  show ?thesis
  proof (cases t)
    case Caller
    with Run assms(2) ctl_locals[OF assms(1)] show ?thesis
      by (cases "c_pc s")
         (auto simp: step_def fr_caller_wait fr_caller_copy fr_caller_lock fr_caller_dec
            fr_caller_unlock fr_caller_delete fr_caller_return split: if_splits)
  next
    case Target
    with Run assms(2) ctl_locals[OF assms(1)] show ?thesis
      by (cases "t_pc s")
         (auto simp: step_def fr_target_deliver fr_target_lock fr_target_check fr_target_signal
            fr_target_dec fr_target_unlock fr_target_delete split: if_splits)
  qed
next
  case Timeout
  with assms(2) ctl_locals[OF assms(1)] show ?thesis
    by (auto simp: step_def fr_caller_wait split: if_splits)
qed

lemma step_c_delegate:
  assumes "c_pc s \<noteq> C_start" "step rd fn e s = Some s'"
  shows "c_delegate s' = c_delegate s \<and> c_pc s' \<noteq> C_start"
proof (cases e)
  case (Run t)
  show ?thesis
  proof (cases t)
    case Caller
    with Run assms show ?thesis
      by (cases "c_pc s")
         (auto simp: step_def caller_wait_def caller_copy_def caller_lock_def
            caller_dec_def caller_unlock_def caller_delete_def caller_return_def
          split: if_splits option.splits)
  next
    case Target
    with Run assms show ?thesis
      by (cases "t_pc s")
         (auto simp: step_def target_deliver_def target_lock_def target_check_def
            target_signal_def target_dec_def target_unlock_def target_delete_def
          split: if_splits option.splits list.splits)
  qed
next
  case Timeout
  with assms show ?thesis
    by (auto simp: step_def caller_wait_def split: if_splits option.splits)
qed

lemma share_fields:
  "delegates (share_heap h s) = delegates h \<and> msgs (share_heap h s) = msgs h \<and>
   next_addr (share_heap h s) = next_addr h \<and> c_pc (share_heap h s) = c_pc s \<and>
   c_delegate (share_heap h s) = c_delegate s \<and> c_msg (share_heap h s) = c_msg s \<and>
   fault (share_heap h s) = fault s \<and>
   not_begun th p (share_heap h s) = not_begun th p s"
  by (simp add: share_heap_def not_begun_def)

lemma call_ok_share:
  assumes "call_ok rd d0 th q s" "delegates s th \<noteq> None" "delegates h th \<noteq> None"
    and "c_pc s \<noteq> C_start \<longrightarrow>
           delegates h (c_delegate s) = delegates s (c_delegate s) \<and>
           msgs h (Suc (c_delegate s)) = msgs s (Suc (c_delegate s))"
    and "next_addr s \<le> next_addr h"
  shows "call_ok rd d0 th q (share_heap h s)"
proof (cases "c_pc s = C_start")
  case True
  with assms(1) show ?thesis by (simp add: call_ok_def share_fields)
next
  case False
  with assms(1) have ci: "ctl_inv rd d0 th (c_delegate s) q s"
    and le: "c_delegate s + 2 \<le> next_addr s" by (simp_all add: call_ok_def)
  from False assms(4) have
    "delegates h (c_delegate s) = delegates s (c_delegate s)"
    "msgs h (Suc (c_delegate s)) = msgs s (Suc (c_delegate s))" by simp_all
  from ctl_share[OF this assms(3,2)] ci
  have "ctl_inv rd d0 th (c_delegate s) q (share_heap h s)" by simp
  with False le assms(5) show ?thesis by (simp add: call_ok_def share_fields)
qed

lemma calls_step_one:
  assumes sync: "delegates s = delegates w" "msgs s = msgs w" "next_addr s = next_addr w"
    and lt: "th < next_addr s"
    and thr: "case delegates s th of None \<Rightarrow> False | Some t \<Rightarrow> m_thread t = m_thread d0"
    and nn: "m_thread d0 \<noteq> null"
    and oks: "call_ok rd d0 th p s" and oko: "call_ok rd d0 th q w"
    and dist: "c_pc s \<noteq> C_start \<and> c_pc w \<noteq> C_start \<longrightarrow> c_delegate s \<noteq> c_delegate w"
    and st: "step rd fn e s = Some s'"
  shows "th < next_addr s' \<and>
         (case delegates s' th of None \<Rightarrow> False | Some t \<Rightarrow> m_thread t = m_thread d0) \<and>
         call_ok rd d0 th p s' \<and> call_ok rd d0 th q (share_heap s' w) \<and>
         (c_pc s' \<noteq> C_start \<and> c_pc w \<noteq> C_start \<longrightarrow> c_delegate s' \<noteq> c_delegate w) \<and>
         (c_pc w \<noteq> C_start \<longrightarrow>
            delegates s' (c_delegate w) = delegates s (c_delegate w) \<and>
            msgs s' (c_msg w) = msgs s (c_msg w))"
proof -
  from thr obtain t where t: "delegates s th = Some t" "m_thread t = m_thread d0"
    by (cases "delegates s th") auto
  have o_started: "c_pc w \<noteq> C_start \<Longrightarrow>
      c_delegate w \<noteq> th \<and> c_msg w = Suc (c_delegate w) \<and> c_delegate w + 2 \<le> next_addr s"
  proof -
    assume "c_pc w \<noteq> C_start"
    with oko have ci: "ctl_inv rd d0 th (c_delegate w) q w"
      and le: "c_delegate w + 2 \<le> next_addr w" by (simp_all add: call_ok_def)
    from ctl_locals[OF ci] le sync(3) show ?thesis by auto
  qed
  show ?thesis
  proof (cases "c_pc s = C_start")
    case True
    with oks have nb: "not_begun th p s" by (simp add: call_ok_def)
    from step_not_begun[OF nb st] have s': "s' = caller_start fn s" by simp
    from lt have ne: "th \<noteq> next_addr s" by simp
    from ctl_begin[OF nb t nn ne] s' have ci: "ctl_inv rd d0 th (next_addr s) p s'" by simp
    from t(2) nn have "m_thread t \<noteq> null" by simp
    from frame_begin[OF nb t(1) this, of fn] s'
    have fb: "next_addr s' = next_addr s + 2" "c_delegate s' = next_addr s"
      "c_pc s' \<noteq> C_start"
      "\<forall>x. x \<noteq> next_addr s \<longrightarrow> delegates s' x = delegates s x"
      "\<forall>x. x \<noteq> Suc (next_addr s) \<longrightarrow> msgs s' x = msgs s x" by simp_all
    from fb(4) ne t(1) have th': "delegates s' th = Some t" by simp
    have 1: "th < next_addr s'" using lt fb(1) by simp
    have 2: "case delegates s' th of None \<Rightarrow> False | Some t \<Rightarrow> m_thread t = m_thread d0"
      using th' t(2) by simp
    have 3: "call_ok rd d0 th p s'" using ci fb(1-3) by (simp add: call_ok_def)
    have 6: "c_pc w \<noteq> C_start \<longrightarrow>
            delegates s' (c_delegate w) = delegates s (c_delegate w) \<and>
            msgs s' (c_msg w) = msgs s (c_msg w)"
      using o_started fb(4,5) by auto
    have 5: "c_pc s' \<noteq> C_start \<and> c_pc w \<noteq> C_start \<longrightarrow> c_delegate s' \<noteq> c_delegate w"
      using o_started fb(2) by auto
    have "call_ok rd d0 th q (share_heap s' w)"
    proof (rule call_ok_share[OF oko])
      show "delegates w th \<noteq> None" using t(1) sync(1) by simp
      show "delegates s' th \<noteq> None" using th' by simp
      show "c_pc w \<noteq> C_start \<longrightarrow>
           delegates s' (c_delegate w) = delegates w (c_delegate w) \<and>
           msgs s' (Suc (c_delegate w)) = msgs w (Suc (c_delegate w))"
        using 6 o_started sync(1,2) by auto
      show "next_addr w \<le> next_addr s'" using fb(1) sync(3) by simp
    qed
    with 1 2 3 5 6 show ?thesis by simp
  next
    case False
    with oks have ci: "ctl_inv rd d0 th (c_delegate s) p s"
      and le: "c_delegate s + 2 \<le> next_addr s" by (simp_all add: call_ok_def)
    from ctl_step[OF ci st] have ci': "ctl_inv rd d0 th (c_delegate s) p s'" .
    from step_c_delegate[OF False st] have cd: "c_delegate s' = c_delegate s"
      and started: "c_pc s' \<noteq> C_start" by simp_all
    from frame_step[OF ci st] have fr: "frame th (c_delegate s) s s'" .
    then have na: "next_addr s' = next_addr s"
      and fd: "\<forall>x. x \<noteq> th \<longrightarrow> x \<noteq> c_delegate s \<longrightarrow> delegates s' x = delegates s x"
      and fm: "\<forall>x. x \<noteq> Suc (c_delegate s) \<longrightarrow> msgs s' x = msgs s x"
      by (simp_all add: frame_def)
    from fr t obtain t' where th': "delegates s' th = Some t'" "m_thread t' = m_thread d0"
      by (cases "delegates s' th") (auto simp: frame_def)
    have 1: "th < next_addr s'" using lt na by simp
    have 2: "case delegates s' th of None \<Rightarrow> False | Some t \<Rightarrow> m_thread t = m_thread d0"
      using th' by simp
    have 3: "call_ok rd d0 th p s'" using ci' cd started le na by (simp add: call_ok_def)
    have 5: "c_pc s' \<noteq> C_start \<and> c_pc w \<noteq> C_start \<longrightarrow> c_delegate s' \<noteq> c_delegate w"
      using dist False cd by simp
    have 6: "c_pc w \<noteq> C_start \<longrightarrow>
            delegates s' (c_delegate w) = delegates s (c_delegate w) \<and>
            msgs s' (c_msg w) = msgs s (c_msg w)"
      using o_started dist False fd fm by auto
    have "call_ok rd d0 th q (share_heap s' w)"
    proof (rule call_ok_share[OF oko])
      show "delegates w th \<noteq> None" using t(1) sync(1) by simp
      show "delegates s' th \<noteq> None" using th' by simp
      show "c_pc w \<noteq> C_start \<longrightarrow>
           delegates s' (c_delegate w) = delegates w (c_delegate w) \<and>
           msgs s' (Suc (c_delegate w)) = msgs w (Suc (c_delegate w))"
        using 6 o_started sync(1,2) by auto
      show "next_addr w \<le> next_addr s'" using na sync(3) by simp
    qed
    with 1 2 3 5 6 show ?thesis by simp
  qed
qed

lemma calls_inv_step:
  assumes "calls_inv rd d0 th p1 p2 ab" "m_thread d0 \<noteq> null" "step2 rd fn ce ab = Some ab'"
  shows "calls_inv rd d0 th p1 p2 ab'"
proof -
  from assms(1) have sync: "delegates (fst ab) = delegates (snd ab)"
    "msgs (fst ab) = msgs (snd ab)" "next_addr (fst ab) = next_addr (snd ab)"
    and lt: "th < next_addr (fst ab)"
    and thr: "case delegates (fst ab) th of None \<Rightarrow> False | Some t \<Rightarrow> m_thread t = m_thread d0"
    and ok: "call_ok rd d0 th p1 (fst ab)" "call_ok rd d0 th p2 (snd ab)"
    and dist: "c_pc (fst ab) \<noteq> C_start \<and> c_pc (snd ab) \<noteq> C_start \<longrightarrow>
       c_delegate (fst ab) \<noteq> c_delegate (snd ab)"
    unfolding calls_inv_def by blast+
  show ?thesis
  proof (cases "fst ce")
    case First
    with assms(3) obtain a' where st: "step rd fn (snd ce) (fst ab) = Some a'"
      and ab': "ab' = (a', share_heap a' (snd ab))"
      by (auto simp: step2_def split: option.splits)
    from calls_step_one[OF sync lt thr assms(2) ok dist st] ab' show ?thesis
      by (simp add: calls_inv_def share_fields)
  next
    case Second
    with assms(3) obtain b' where st: "step rd fn (snd ce) (snd ab) = Some b'"
      and ab': "ab' = (share_heap b' (fst ab), b')"
      by (auto simp: step2_def split: option.splits)
    from thr sync(1)
    have thr2: "case delegates (snd ab) th of None \<Rightarrow> False | Some t \<Rightarrow> m_thread t = m_thread d0"
      by simp
    from dist have dist2: "c_pc (snd ab) \<noteq> C_start \<and> c_pc (fst ab) \<noteq> C_start \<longrightarrow>
         c_delegate (snd ab) \<noteq> c_delegate (fst ab)" by auto
    from lt sync(3) have lt2: "th < next_addr (snd ab)" by simp
    from calls_step_one[OF sync(1)[symmetric] sync(2)[symmetric] sync(3)[symmetric] lt2 thr2
        assms(2) ok(2,1) dist2 st] ab' show ?thesis
      by (auto simp: calls_inv_def share_fields)
  qed
qed

lemma calls_inv_run:
  "calls_inv rd d0 th p1 p2 ab \<Longrightarrow> m_thread d0 \<noteq> null \<Longrightarrow> run2 rd fn ces ab = Some ab' \<Longrightarrow>
   calls_inv rd d0 th p1 p2 ab'"
  by (induction ces arbitrary: ab) (auto split: option.splits dest: calls_inv_step)

lemma calls_inv_begin:
  assumes "ds th = Some d0" "th < nxt"
  shows "calls_inv rd d0 th p1 p2 (begin_calls ds nxt th p1 p2)"
  using assms by (simp add: calls_inv_def begin_calls_def call_ok_def not_begun_def begin_call_def)

lemma calls_inv_facts:
  assumes "calls_inv rd d0 th p1 p2 (a, b)"
  shows "\<not> fault a \<and> \<not> fault b \<and> delegates a = delegates b \<and> msgs a = msgs b \<and>
         (c_pc a \<noteq> C_start \<longrightarrow> c_delegate a \<noteq> th \<and> own_clone a) \<and>
         (c_pc b \<noteq> C_start \<longrightarrow> c_delegate b \<noteq> th \<and> own_clone b) \<and>
         (c_pc a \<noteq> C_start \<and> c_pc b \<noteq> C_start \<longrightarrow>
            c_delegate a \<noteq> c_delegate b \<and> c_msg a \<noteq> c_msg b)"
proof -
  have one: "\<not> fault s \<and> (c_pc s \<noteq> C_start \<longrightarrow>
        c_delegate s \<noteq> th \<and> own_clone s \<and> c_msg s = Suc (c_delegate s))"
    if "call_ok rd d0 th p s" for p s
  proof (cases "c_pc s = C_start")
    case True
    with that show ?thesis by (simp add: call_ok_def not_begun_def)
  next
    case False
    with that have ci: "ctl_inv rd d0 th (c_delegate s) p s" by (simp add: call_ok_def)
    from ctl_locals[OF ci] have l: "\<not> fault s" "c_delegate s \<noteq> th"
      "c_msg s = Suc (c_delegate s)" by auto
    from ci l(3) have "own_clone s" by (simp add: ctl_inv_def own_clone_def)
    with l show ?thesis by simp
  qed
  from assms have "call_ok rd d0 th p1 a" "call_ok rd d0 th p2 b"
    "delegates a = delegates b" "msgs a = msgs b"
    "c_pc a \<noteq> C_start \<and> c_pc b \<noteq> C_start \<longrightarrow> c_delegate a \<noteq> c_delegate b"
    unfolding calls_inv_def fst_conv snd_conv by blast+
  with one[of p1 a] one[of p2 b] show ?thesis by auto
qed

lemma calls_no_interference:
  assumes "calls_inv rd d0 th p1 p2 (a, b)" "m_thread d0 \<noteq> null"
  shows "(\<forall>e a' b'. step2 rd fn (Second, e) (a, b) = Some (a', b') \<longrightarrow> c_pc a \<noteq> C_start \<longrightarrow>
            delegates a' (c_delegate a) = delegates a (c_delegate a) \<and>
            msgs a' (c_msg a) = msgs a (c_msg a)) \<and>
         (\<forall>e a' b'. step2 rd fn (First, e) (a, b) = Some (a', b') \<longrightarrow> c_pc b \<noteq> C_start \<longrightarrow>
            delegates b' (c_delegate b) = delegates b (c_delegate b) \<and>
            msgs b' (c_msg b) = msgs b (c_msg b))"
proof -
  from assms(1) have sync: "delegates a = delegates b" "msgs a = msgs b"
    "next_addr a = next_addr b"
    and lt: "th < next_addr a"
    and thr: "case delegates a th of None \<Rightarrow> False | Some t \<Rightarrow> m_thread t = m_thread d0"
    and ok: "call_ok rd d0 th p1 a" "call_ok rd d0 th p2 b"
    and dist: "c_pc a \<noteq> C_start \<and> c_pc b \<noteq> C_start \<longrightarrow> c_delegate a \<noteq> c_delegate b"
    unfolding calls_inv_def fst_conv snd_conv by blast+
  from thr sync(1)
  have thr2: "case delegates b th of None \<Rightarrow> False | Some t \<Rightarrow> m_thread t = m_thread d0"
    by simp
  from dist have dist2: "c_pc b \<noteq> C_start \<and> c_pc a \<noteq> C_start \<longrightarrow> c_delegate b \<noteq> c_delegate a"
    by auto
  from lt sync(3) have lt2: "th < next_addr b" by simp
  have second: "delegates a' (c_delegate a) = delegates a (c_delegate a) \<and>
                msgs a' (c_msg a) = msgs a (c_msg a)"
    if "step2 rd fn (Second, e) (a, b) = Some (a', b')" "c_pc a \<noteq> C_start" for e a' b'
  proof -
    from that(1) have st: "step rd fn e b = Some b'" and a': "a' = share_heap b' a"
      by (auto simp: step2_def split: option.splits)
    from calls_step_one[OF sync(1)[symmetric] sync(2)[symmetric] sync(3)[symmetric] lt2 thr2
        assms(2) ok(2,1) dist2 st] that(2) a' sync(1,2)
    show ?thesis by (simp add: share_fields)
  qed
  have first: "delegates b' (c_delegate b) = delegates b (c_delegate b) \<and>
               msgs b' (c_msg b) = msgs b (c_msg b)"
    if "step2 rd fn (First, e) (a, b) = Some (a', b')" "c_pc b \<noteq> C_start" for e a' b'
  proof -
    from that(1) have st: "step rd fn e a = Some a'" and b': "b' = share_heap a' b"
      by (auto simp: step2_def split: option.splits)
    from calls_step_one[OF sync lt thr assms(2) ok dist st] that(2) b' sync(1,2)
    show ?thesis by (simp add: share_fields)
  qed
  from first second show ?thesis by blast
qed

subsection \<open>The example schedules\<close>

text \<open>The states the example schedules reach, by evaluation.\<close>

lemmas model_defs =
  step_def caller_start_def caller_wait_def caller_wait_returns_def caller_copy_def
  caller_lock_def caller_dec_def caller_unlock_def caller_delete_def caller_return_def
  target_deliver_def target_lock_def target_check_def target_signal_def target_dec_def
  target_unlock_def target_delete_def lock_at_def begin_call_def
  Clone_def copy_ctor_def Swap_def DelegateAsyncWait_def Bind_def GetParams_def
  Semaphore_def sema_Create_def sema_Reset_def sema_Signal_def sema_Wait_def
  sema_Wait_returns_def null_def WAIT_INFINITE_def

lemmas ex_defs = ex_fn_def ex_delegate_def ex_heap_def ex_call_def

lemmas ex5_defs =
  ex_rd5_def ex_fn5_def ex_call5_def GetParams_Member5_Ret_def int_to_bool_def bool_to_int_def
  ex_delegate_def ex_heap_def

lemma ex_success5_run:
  "run ex_rd5 ex_fn5 sched_success (begin_call ex_heap 4 3 (1, 2, 3, True, 5)) = Some ex_success5"
  by (simp add: ex_success5_def sched_success_def ex5_defs model_defs)

lemma ex_success5_state:
  "c_pc ex_success5 = C_done \<and> \<not> fault ex_success5 \<and> c_ret ex_success5 = Some 1 \<and>
   delegates ex_success5 3 = Some (ex_delegate\<lparr>m_success := True, m_retVal := Some 1\<rparr>) \<and>
   trace ex_success5 =
     [(Caller, Op_clone 4, Unlocked), (Caller, Op_set_ref 2, Unlocked),
      (Caller, Op_sema_create, Unlocked), (Caller, Op_sema_reset, Unlocked),
      (Caller, Op_new_msg 5, Unlocked), (Caller, Op_dispatch 9 5, Unlocked),
      (Target, Op_get_param, Unlocked), (Target, Op_lock, Unlocked),
      (Target, Op_test_ref 2, Held Target),
      (Target, Op_invoke (1, 2, 3, True, 1) 1, Held Target),
      (Target, Op_store_ret, Held Target), (Target, Op_signal, Held Target),
      (Caller, Op_wait 1000 True, Held Target), (Caller, Op_read_ret, Held Target),
      (Target, Op_dec_ref 1, Held Target), (Target, Op_unlock, Held Target),
      (Caller, Op_lock, Unlocked), (Caller, Op_dec_ref 0, Held Caller),
      (Caller, Op_unlock, Held Caller), (Caller, Op_delete_msg 5, Unlocked),
      (Caller, Op_delete_delegate 4, Unlocked)]"
  by (simp add: ex_success5_def sched_success_def ex5_defs model_defs)

lemma ex_dispatched5_state:
  "msgs ex_dispatched5 5 = Some \<lparr>msg_invoker = 4, msg_param = (1, 2, 3, True, 5)\<rparr> \<and>
   queue ex_dispatched5 = [(9, 5)] \<and>
   trace ex_dispatched5 =
     [(Caller, Op_clone 4, Unlocked), (Caller, Op_set_ref 2, Unlocked),
      (Caller, Op_sema_create, Unlocked), (Caller, Op_sema_reset, Unlocked),
      (Caller, Op_new_msg 5, Unlocked), (Caller, Op_dispatch 9 5, Unlocked)]"
  by (simp add: ex_dispatched5_def ex5_defs model_defs)

lemma ex_invoked5_run:
  "run ex_rd5 ex_fn5 [Run Target, Run Target, Run Target, Run Target, Run Target, Run Target]
     ex_dispatched5 = Some ex_invoked5"
  by (simp add: ex_invoked5_def ex_dispatched5_def ex5_defs model_defs)

lemma ex_invoked5_state:
  "trace ex_invoked5 =
     [(Caller, Op_clone 4, Unlocked), (Caller, Op_set_ref 2, Unlocked),
      (Caller, Op_sema_create, Unlocked), (Caller, Op_sema_reset, Unlocked),
      (Caller, Op_new_msg 5, Unlocked), (Caller, Op_dispatch 9 5, Unlocked),
      (Target, Op_get_param, Unlocked), (Target, Op_lock, Unlocked),
      (Target, Op_test_ref 2, Held Target),
      (Target, Op_invoke (1, 2, 3, True, 1) 1, Held Target),
      (Target, Op_store_ret, Held Target), (Target, Op_signal, Held Target),
      (Target, Op_dec_ref 1, Held Target), (Target, Op_unlock, Held Target)]"
  by (simp add: ex_invoked5_def ex_dispatched5_def ex5_defs model_defs)

lemma ex_this: "ex_heap 3 = Some ex_delegate"
  by (simp add: ex_heap_def)

lemma ex_thread: "m_thread ex_delegate \<noteq> null"
  by (simp add: ex_delegate_def DelegateAsyncWait_def Bind_def null_def)

lemma ex_dispatched_state:
  "\<not> fault ex_dispatched \<and> t_pc ex_dispatched = T_idle \<and> queue ex_dispatched = [(9, 5)] \<and>
   msgs ex_dispatched 5 = Some ex_msg \<and> delegates ex_dispatched 4 = Some ex_clone \<and>
   c_delegate ex_dispatched = 4 \<and> next_addr ex_dispatched = 6 \<and>
   trace ex_dispatched =
     [(Caller, Op_clone 4, Unlocked), (Caller, Op_set_ref 2, Unlocked),
      (Caller, Op_sema_create, Unlocked), (Caller, Op_sema_reset, Unlocked),
      (Caller, Op_new_msg 5, Unlocked), (Caller, Op_dispatch 9 5, Unlocked)]"
  by (simp add: ex_dispatched_def ex_clone_def ex_msg_def ex_defs model_defs)

lemma ex_dispatched_run: "run GetParams ex_fn [Run Caller] (begin_call ex_heap 4 3 5) = Some ex_dispatched"
  by (simp add: ex_dispatched_def ex_defs step_def begin_call_def)

lemma ex_abandoned_state:
  "\<not> fault ex_abandoned \<and> t_pc ex_abandoned = T_idle \<and> queue ex_abandoned = [(9, 5)] \<and>
   msgs ex_abandoned 5 = Some ex_msg \<and>
   delegates ex_abandoned 4 = Some (ex_clone\<lparr>m_refCnt := 1\<rparr>) \<and>
   trace ex_abandoned =
     [(Caller, Op_clone 4, Unlocked), (Caller, Op_set_ref 2, Unlocked),
      (Caller, Op_sema_create, Unlocked), (Caller, Op_sema_reset, Unlocked),
      (Caller, Op_new_msg 5, Unlocked), (Caller, Op_dispatch 9 5, Unlocked),
      (Caller, Op_wait 1000 False, Unlocked),
      (Caller, Op_lock, Unlocked), (Caller, Op_dec_ref 1, Held Caller),
      (Caller, Op_unlock, Held Caller)]"
  by (simp add: ex_abandoned_def ex_clone_def ex_msg_def ex_defs model_defs)

lemma ex_clone_fields:
  "m_lock ex_clone = Unlocked \<and> m_refCnt ex_clone = 2 \<and> m_callable ex_clone = MemberFn 10 7 \<and>
   m_retVal ex_clone = None \<and> m_sema ex_clone = \<lparr>created = True, signals = 0\<rparr>"
  by (simp add: ex_clone_def ex_defs model_defs)

lemma ex_msg_fields: "msg_invoker ex_msg = 4 \<and> msg_param ex_msg = 5"
  by (simp add: ex_msg_def)

lemma ex_unused: "\<forall>a\<ge>4. ex_heap a = None"
  by (simp add: ex_heap_def)

lemma ex_success_run: "run GetParams ex_fn sched_success (begin_call ex_heap 4 3 5) = Some ex_success"
  by (simp add: ex_success_def sched_success_def ex_defs model_defs)

lemma ex_success_state:
  "c_pc ex_success = C_done \<and> t_pc ex_success = T_done \<and> \<not> fault ex_success \<and>
   c_ret ex_success = Some 25 \<and>
   delegates ex_success 4 = None \<and> msgs ex_success 5 = None \<and>
   delegates ex_success 3 = Some (ex_delegate\<lparr>m_success := True, m_retVal := Some 25\<rparr>) \<and>
   trace ex_success =
     [(Caller, Op_clone 4, Unlocked), (Caller, Op_set_ref 2, Unlocked),
      (Caller, Op_sema_create, Unlocked), (Caller, Op_sema_reset, Unlocked),
      (Caller, Op_new_msg 5, Unlocked), (Caller, Op_dispatch 9 5, Unlocked),
      (Target, Op_get_param, Unlocked), (Target, Op_lock, Unlocked),
      (Target, Op_test_ref 2, Held Target), (Target, Op_invoke 5 25, Held Target),
      (Target, Op_store_ret, Held Target), (Target, Op_signal, Held Target),
      (Caller, Op_wait 1000 True, Held Target), (Caller, Op_read_ret, Held Target),
      (Target, Op_dec_ref 1, Held Target), (Target, Op_unlock, Held Target),
      (Caller, Op_lock, Unlocked), (Caller, Op_dec_ref 0, Held Caller),
      (Caller, Op_unlock, Held Caller), (Caller, Op_delete_msg 5, Unlocked),
      (Caller, Op_delete_delegate 4, Unlocked)]"
  by (simp add: ex_success_def sched_success_def ex_defs model_defs)

lemma ex_timeout_run: "run GetParams ex_fn sched_timeout (begin_call ex_heap 4 3 5) = Some ex_timeout"
  by (simp add: ex_timeout_def sched_timeout_def ex_defs model_defs)

lemma ex_timeout_state:
  "c_pc ex_timeout = C_done \<and> t_pc ex_timeout = T_done \<and> \<not> fault ex_timeout \<and>
   c_ret ex_timeout = None \<and>
   delegates ex_timeout 4 = None \<and> msgs ex_timeout 5 = None \<and>
   delegates ex_timeout 3 = Some ex_delegate \<and>
   trace ex_timeout =
     [(Caller, Op_clone 4, Unlocked), (Caller, Op_set_ref 2, Unlocked),
      (Caller, Op_sema_create, Unlocked), (Caller, Op_sema_reset, Unlocked),
      (Caller, Op_new_msg 5, Unlocked), (Caller, Op_dispatch 9 5, Unlocked),
      (Caller, Op_wait 1000 False, Unlocked),
      (Caller, Op_lock, Unlocked), (Caller, Op_dec_ref 1, Held Caller),
      (Caller, Op_unlock, Held Caller),
      (Target, Op_get_param, Unlocked), (Target, Op_lock, Unlocked),
      (Target, Op_test_ref 1, Held Target),
      (Target, Op_dec_ref 0, Held Target), (Target, Op_unlock, Held Target),
      (Target, Op_delete_msg 5, Unlocked), (Target, Op_delete_delegate 4, Unlocked)]"
  by (simp add: ex_timeout_def sched_timeout_def ex_defs model_defs)

lemma ex_fresh: "ex_heap 4 = None"
  by (simp add: ex_heap_def)

lemma ex_fields:
  "m_timeout ex_delegate = 1000 \<and> m_callable ex_delegate = MemberFn 10 7 \<and>
   m_retVal ex_delegate = None \<and> m_thread ex_delegate = 9 \<and> m_refCnt ex_delegate = 0 \<and>
   m_lock ex_delegate = Unlocked \<and> m_sema ex_delegate = Semaphore"
  by (simp add: ex_delegate_def DelegateAsyncWait_def Bind_def null_def)

lemmas pair_defs = step2_def share_heap_def begin_calls_def

lemma ex_two_calls_run:
  "run2 GetParams ex_fn sched_two_calls (begin_calls ex_heap 4 3 5 6) = Some ex_two_calls"
  by (simp add: ex_two_calls_def sched_two_calls_def pair_defs ex_defs model_defs)

lemma ex_two_calls_state:
  "c_pc (fst ex_two_calls) = C_done \<and> c_p1 (fst ex_two_calls) = 5 \<and>
   c_ret (fst ex_two_calls) = Some 36 \<and>
   c_pc (snd ex_two_calls) = C_done \<and> c_p1 (snd ex_two_calls) = 6 \<and>
   c_ret (snd ex_two_calls) = Some 36 \<and>
   Op_wait 1000 True \<in> set (ops_of Caller (trace (fst ex_two_calls))) \<and>
   Op_invoke 5 25 \<in> set (ops_of Target (trace (fst ex_two_calls))) \<and>
   delegates (fst ex_two_calls) 3 = Some (ex_delegate\<lparr>m_success := True, m_retVal := Some 36\<rparr>)"
  by (simp add: ex_two_calls_def sched_two_calls_def pair_defs ex_defs model_defs ops_of_def)

lemma ex_in_flight_run:
  "run2 GetParams ex_fn sched_in_flight (begin_calls ex_heap 4 3 5 6) = Some ex_in_flight"
  by (simp add: ex_in_flight_def sched_in_flight_def pair_defs ex_defs model_defs)

lemma ex_in_flight_state:
  "c_pc (fst ex_in_flight) = C_wait \<and> c_pc (snd ex_in_flight) = C_wait \<and>
   t_pc (fst ex_in_flight) = T_check \<and> t_pc (snd ex_in_flight) = T_check \<and>
   c_delegate (fst ex_in_flight) = 4 \<and> c_delegate (snd ex_in_flight) = 6 \<and>
   c_msg (fst ex_in_flight) = 5 \<and> c_msg (snd ex_in_flight) = 7 \<and>
   delegates (fst ex_in_flight) 4 = Some (ex_clone\<lparr>m_lock := Held Target\<rparr>) \<and>
   delegates (fst ex_in_flight) 6 = Some (ex_clone\<lparr>m_lock := Held Target\<rparr>) \<and>
   delegates (snd ex_in_flight) = delegates (fst ex_in_flight)"
  by (simp add: ex_in_flight_def sched_in_flight_def pair_defs ex_defs model_defs ex_clone_def)

section \<open>At-most-once invocation\<close>

text \<open>
  C1. In every state reached by a call dispatched to a target thread, the callable has been
  invoked at most once, and it has been invoked exactly as many times as the test
  \<open>m_refCnt == 2\<close> of \<open>DelegateInvoke\<close> saw the value 2.
\<close>

theorem at_most_once_invocation:
  assumes "ds th = Some d0" "ds nxt = None" "m_thread d0 \<noteq> null"
    and "run rd fn evs (begin_call ds nxt th p) = Some s"
  shows "invocations (trace s) \<le> 1 \<and> invocations (trace s) = tests_seeing_two (trace s)"
proof -
  from run_begin[OF assms]
  consider "s = begin_call ds nxt th p" | "call_inv rd fn ds d0 th nxt p s" by blast
  then show ?thesis
  proof cases
    case 1
    then show ?thesis
      by (simp add: invocations_def tests_seeing_two_def ops_of_def begin_call_def)
  next
    case 2
    from inv_ops[OF 2] show ?thesis
      by (simp add: invocations_def tests_seeing_two_def invoke_caller_ops invoke_target_ops
          sees_two_target_ops)
  qed
qed

text \<open>The two schedules: one invocation when the target runs first, none after a timeout.\<close>

theorem at_most_once_invocation_witness:
  "invocations (trace ex_success) = 1 \<and> tests_seeing_two (trace ex_success) = 1 \<and>
   invocations (trace ex_timeout) = 0 \<and> tests_seeing_two (trace ex_timeout) = 0"
  using at_most_once_invocation[OF ex_this ex_fresh ex_thread ex_success_run]
    at_most_once_invocation[OF ex_this ex_fresh ex_thread ex_timeout_run]
  by (simp add: ex_success_state ex_timeout_state tests_seeing_two_def ops_of_def)

section \<open>Reference count and release\<close>

text \<open>
  C2. In every state reached by a dispatched call: nothing is used after it was freed or
  freed twice; the reference count of the clone is 2 as long as no thread has decremented
  it, it is 2 minus the number of decrements made and never negative; each thread makes at
  most one decrement, and exactly one once it is done; a thread that deletes, deletes the
  message and the clone once, after the decrement that reached 0; at most one thread
  deletes, and when both are done one of them has; and both threads can always finish.
\<close>

theorem refcount_two_decrements_one_release:
  assumes "ds th = Some d0" "ds nxt = None" "m_thread d0 \<noteq> null"
    and "run rd fn evs (begin_call ds nxt th p) = Some s"
  shows "\<not> fault s \<and>
   (c_pc s \<noteq> C_start \<and> decrements Caller (trace s) = [] \<and> decrements Target (trace s) = [] \<longrightarrow>
      (\<exists>cl. delegates s nxt = Some cl \<and> m_refCnt cl = 2)) \<and>
   (\<forall>cl. delegates s nxt = Some cl \<longrightarrow>
      m_refCnt cl = 2 - int (length (decrements Caller (trace s)))
                      - int (length (decrements Target (trace s))) \<and>
      0 \<le> m_refCnt cl) \<and>
   length (decrements Caller (trace s)) \<le> 1 \<and>
   length (decrements Target (trace s)) \<le> 1 \<and>
   (c_pc s = C_done \<longrightarrow> length (decrements Caller (trace s)) = 1) \<and>
   (t_pc s = T_done \<longrightarrow> length (decrements Target (trace s)) = 1) \<and>
   (\<forall>t. releases t (trace s) \<noteq> [] \<longrightarrow>
      releases t (trace s) = [Op_delete_msg (Suc nxt), Op_delete_delegate nxt] \<and>
      decrements t (trace s) = [Op_dec_ref 0] \<and>
      delegates s nxt = None \<and> msgs s (Suc nxt) = None) \<and>
   (releases Caller (trace s) = [] \<or> releases Target (trace s) = []) \<and>
   (c_pc s = C_done \<and> t_pc s = T_done \<longrightarrow>
      releases Caller (trace s) \<noteq> [] \<or> releases Target (trace s) \<noteq> []) \<and>
   (\<exists>evs' s'. run rd fn evs' s = Some s' \<and> c_pc s' = C_done \<and> t_pc s' = T_done)"
proof -
  from completes_from[OF assms]
  have fin: "\<exists>evs' s'. run rd fn evs' s = Some s' \<and> c_pc s' = C_done \<and> t_pc s' = T_done"
    by blast
  from run_begin[OF assms]
  consider "s = begin_call ds nxt th p" | "call_inv rd fn ds d0 th nxt p s" by blast
  then show ?thesis
  proof cases
    case 1
    with assms(2) fin show ?thesis
      by (simp add: decrements_def releases_def ops_of_def begin_call_def)
  next
    case 2
    have tids: "\<And>P. (\<forall>t. P t) = (P Caller \<and> P Target)"
      by (metis tid.exhaust)
    from inv_decrements[OF 2] refcount_facts[OF 2] inv_not_start[OF 2] fin show ?thesis
      by (cases "c_pc s"; cases "t_pc s"; cases "c_deleteData s"; cases "t_deleteData s")
         (simp_all add: tids)
  qed
qed

text \<open>In the first schedule the caller releases, in the second the target.\<close>

theorem refcount_two_decrements_one_release_witness:
  "\<not> fault ex_success \<and> c_pc ex_success = C_done \<and> t_pc ex_success = T_done \<and>
   decrements Target (trace ex_success) = [Op_dec_ref 1] \<and>
   decrements Caller (trace ex_success) = [Op_dec_ref 0] \<and>
   releases Caller (trace ex_success) = [Op_delete_msg 5, Op_delete_delegate 4] \<and>
   releases Target (trace ex_success) = [] \<and>
   delegates ex_success 4 = None \<and> msgs ex_success 5 = None \<and>
   decrements Caller (trace ex_timeout) = [Op_dec_ref 1] \<and>
   decrements Target (trace ex_timeout) = [Op_dec_ref 0] \<and>
   releases Target (trace ex_timeout) = [Op_delete_msg 5, Op_delete_delegate 4] \<and>
   releases Caller (trace ex_timeout) = []"
proof -
  from refcount_two_decrements_one_release[OF ex_this ex_fresh ex_thread ex_success_run]
  have "\<not> fault ex_success" by (rule conjunct1)
  moreover
  from refcount_two_decrements_one_release[OF ex_this ex_fresh ex_thread ex_timeout_run]
  have "\<not> fault ex_timeout" by (rule conjunct1)
  ultimately show ?thesis
    by (simp add: ex_success_state ex_timeout_state decrements_def releases_def ops_of_def)
qed

section \<open>Successful wait\<close>

text \<open>
  When \<open>operator()\<close> has returned from a call whose wait succeeded, \<open>IsSuccess\<close> is true,
  the caller has copied the clone's result, and \<open>GetRetVal\<close> and the value returned are
  the value the callable computed on the target thread, which is its value for the
  arguments as \<open>DelegateInvoke\<close> read them.
\<close>

lemma success_returns_value_of_read_arguments:
  assumes "ds th = Some d0" "ds nxt = None" "m_thread d0 \<noteq> null"
    and "run rd fn evs (begin_call ds nxt th p) = Some s"
    and "c_pc s = C_done"
    and "Op_wait (m_timeout d0) True \<in> set (ops_of Caller (trace s))"
  shows "\<exists>this. delegates s th = Some this \<and> IsSuccess this \<and>
           GetRetVal this = Some (fn (m_callable d0) (rd p)) \<and>
           c_ret s = Some (fn (m_callable d0) (rd p)) \<and>
           Op_read_ret \<in> set (ops_of Caller (trace s)) \<and>
           Op_invoke (rd p) (fn (m_callable d0) (rd p)) \<in> set (ops_of Target (trace s))"
proof -
  from run_begin[OF assms(1-4)] assms(5)
  have inv: "call_inv rd fn ds d0 th nxt p s" by (auto simp: begin_call_def)
  from inv_members[OF inv] assms(6) have su: "succeeded s"
    by simp
  from inv_this[OF inv] obtain this where
    th: "delegates s th = Some this"
    and ok: "this_ok d0 (fn (m_callable d0) (rd p)) (c_pc s) (c_ret s) this"
    and eq: "succeeded s = m_success this"
    and ivk: "c_pc s \<noteq> C_wait \<and> m_success this \<longrightarrow> invoked s"
    by blast
  from su eq have ms: "m_success this" by simp
  with ivk assms(5) have iv: "invoked s" by simp
  then have "t_pc s = T_signal \<or> t_tested (t_pc s)"
    by (auto simp: invoked_def dest: invoked_at_tested)
  with iv inv_members[OF inv] have
    "Op_invoke (rd p) (fn (m_callable d0) (rd p)) \<in> set (ops_of Target (trace s))"
    by simp
  moreover from su inv_members[OF inv] assms(5) have "Op_read_ret \<in> set (ops_of Caller (trace s))"
    by simp
  moreover from ok ms assms(5) have
    "GetRetVal this = Some (fn (m_callable d0) (rd p)) \<and> c_ret s = Some (fn (m_callable d0) (rd p))"
    by (simp add: this_ok_def GetRetVal_def)
  ultimately show ?thesis using th ms by (simp add: IsSuccess_def)
qed

text \<open>
  In the classes whose \<open>DelegateInvoke\<close> hands the arguments on as they are, that is the
  value of the callable for the arguments of the call: the first schedule returns 25 for
  the argument 5.
\<close>

lemma success_returns_computed_value_GetParams:
  assumes "ds th = Some d0" "ds nxt = None" "m_thread d0 \<noteq> null"
    and "run GetParams fn evs (begin_call ds nxt th p) = Some s"
    and "c_pc s = C_done"
    and "Op_wait (m_timeout d0) True \<in> set (ops_of Caller (trace s))"
  shows "\<exists>this. delegates s th = Some this \<and> IsSuccess this \<and>
           GetRetVal this = Some (fn (m_callable d0) p) \<and>
           c_ret s = Some (fn (m_callable d0) p) \<and>
           Op_read_ret \<in> set (ops_of Caller (trace s)) \<and>
           Op_invoke p (fn (m_callable d0) p) \<in> set (ops_of Target (trace s))"
  using success_returns_value_of_read_arguments[OF assms] by (simp add: GetParams_def)

lemma success_returns_computed_value_example:
  "c_pc ex_success = C_done \<and>
   Op_wait 1000 True \<in> set (ops_of Caller (trace ex_success)) \<and>
   delegates ex_success 3 = Some (ex_delegate\<lparr>m_success := True, m_retVal := Some 25\<rparr>) \<and>
   c_ret ex_success = Some 25 \<and> ex_fn (MemberFn 10 7) 5 = 25"
proof -
  have d: "c_pc ex_success = C_done" by (simp add: ex_success_state)
  have w: "Op_wait (m_timeout ex_delegate) True \<in> set (ops_of Caller (trace ex_success))"
    by (simp add: ex_success_state ex_fields ops_of_def)
  from success_returns_computed_value_GetParams[OF ex_this ex_fresh ex_thread ex_success_run d w]
  have "c_ret ex_success = Some (ex_fn (m_callable ex_delegate) 5)" by blast
  then show ?thesis
    by (simp add: ex_fields ex_fn_def ex_success_state ops_of_def)
qed

text \<open>
  C3. The claim is that after every call whose wait succeeded the value returned and
  \<open>GetRetVal\<close> are the value the callable computes for the arguments of the call.
  \<open>DelegateMemberAsyncWait<RetType(TClass(Param1, Param2, Param3, Param4, Param5))>\<close>
  breaks it: its \<open>DelegateInvoke\<close> declares the local for the fifth argument with the
  type \<open>Param4\<close>, where the three sibling classes of five parameters declare \<open>Param5\<close>.
  With \<open>Param4 = bool\<close> and \<open>Param5 = int\<close>, the call with the arguments
  (1, 2, 3, true, 5) of a callable that returns its fifth argument succeeds, and
  \<open>operator()\<close> and \<open>GetRetVal\<close> give 1, while the callable's value for these arguments
  is 5.
\<close>

theorem member5_returns_value_of_converted_argument:
  "run ex_rd5 ex_fn5 sched_success (begin_call ex_heap 4 3 (1, 2, 3, True, 5)) = Some ex_success5 \<and>
   c_pc ex_success5 = C_done \<and> \<not> fault ex_success5 \<and>
   Op_wait 1000 True \<in> set (ops_of Caller (trace ex_success5)) \<and>
   delegates ex_success5 3 = Some (ex_delegate\<lparr>m_success := True, m_retVal := Some 1\<rparr>) \<and>
   IsSuccess (ex_delegate\<lparr>m_success := True, m_retVal := Some 1\<rparr>) \<and>
   GetRetVal (ex_delegate\<lparr>m_success := True, m_retVal := Some 1\<rparr>) = Some 1 \<and>
   c_ret ex_success5 = Some 1 \<and>
   ex_fn5 (MemberFn 10 7) (1, 2, 3, True, 5) = 5"
  using ex_success5_run
  by (simp add: ex_success5_state ops_of_def IsSuccess_def GetRetVal_def ex_fn5_def)

section \<open>Timed-out wait\<close>

text \<open>
  C4. Once the wait of a call has timed out, no fault occurs, \<open>IsSuccess\<close> is false, the
  caller never reads the clone's result slot, its own result holder keeps the value it had
  before the call, and the call can always run on until \<open>operator()\<close> returns that value.
\<close>

theorem timeout_returns_without_copy:
  assumes "ds th = Some d0" "ds nxt = None" "m_thread d0 \<noteq> null"
    and "run rd fn evs (begin_call ds nxt th p) = Some s"
    and "Op_wait (m_timeout d0) False \<in> set (ops_of Caller (trace s))"
  shows "\<not> fault s \<and>
         (\<exists>this. delegates s th = Some this \<and> \<not> IsSuccess this \<and>
            GetRetVal this = m_retVal d0) \<and>
         Op_read_ret \<notin> set (ops_of Caller (trace s)) \<and>
         (c_pc s = C_done \<longrightarrow> c_ret s = m_retVal d0) \<and>
         (\<exists>evs' s'. run rd fn evs' s = Some s' \<and> c_pc s' = C_done \<and> \<not> fault s' \<and>
            c_ret s' = m_retVal d0 \<and>
            Op_read_ret \<notin> set (ops_of Caller (trace s')) \<and>
            (\<exists>this. delegates s' th = Some this \<and> \<not> IsSuccess this \<and>
               GetRetVal this = m_retVal d0))"
proof -
  from run_begin[OF assms(1-4)] assms(5)
  have inv: "call_inv rd fn ds d0 th nxt p s" by (auto simp: begin_call_def ops_of_def)
  from completes_from[OF assms(1-4)] obtain evs' s' where
    r: "run rd fn evs' s = Some s'" and d: "c_pc s' = C_done"
    and inv': "call_inv rd fn ds d0 th nxt p s'" by blast
  from run_trace_prefix[OF r] obtain ext where "trace s' = trace s @ ext" by blast
  from ops_of_mono[OF this] assms(5)
  have w': "Op_wait (m_timeout d0) False \<in> set (ops_of Caller (trace s'))" by blast
  from timed_out_facts[OF inv' w'] d r
  have "\<exists>evs' s'. run rd fn evs' s = Some s' \<and> c_pc s' = C_done \<and> \<not> fault s' \<and>
            c_ret s' = m_retVal d0 \<and>
            Op_read_ret \<notin> set (ops_of Caller (trace s')) \<and>
            (\<exists>this. delegates s' th = Some this \<and> \<not> IsSuccess this \<and>
               GetRetVal this = m_retVal d0)"
    by blast
  with timed_out_facts[OF inv assms(5)] show ?thesis by blast
qed

text \<open>The second schedule.\<close>

theorem timeout_returns_without_copy_witness:
  "Op_wait 1000 False \<in> set (ops_of Caller (trace ex_timeout)) \<and>
   \<not> fault ex_timeout \<and> c_pc ex_timeout = C_done \<and>
   delegates ex_timeout 3 = Some ex_delegate \<and>
   \<not> IsSuccess ex_delegate \<and> GetRetVal ex_delegate = None \<and>
   Op_read_ret \<notin> set (ops_of Caller (trace ex_timeout)) \<and>
   c_ret ex_timeout = None"
proof -
  have w: "Op_wait (m_timeout ex_delegate) False \<in> set (ops_of Caller (trace ex_timeout))"
    by (simp add: ex_timeout_state ex_fields ops_of_def)
  from timeout_returns_without_copy[OF ex_this ex_fresh ex_thread ex_timeout_run w]
  have "\<not> fault ex_timeout" by (rule conjunct1)
  then show ?thesis
    by (simp add: ex_fields ex_timeout_state ops_of_def IsSuccess_def GetRetVal_def
        ex_delegate_def DelegateAsyncWait_def Bind_def)
qed

section \<open>No target thread\<close>

text \<open>
  C5. For a delegate whose thread pointer is null, \<open>operator()\<close> returns in one step of
  the caller with the value of the callable; the only operation made is the invocation, by
  the caller; no clone and no message is allocated, nothing is queued, and neither the
  target thread nor a timeout has anything to do with the call.
\<close>

theorem no_thread_invokes_directly:
  assumes "ds th = Some d0" "m_thread d0 = null"
  shows "\<exists>s'. run rd fn [Run Caller] (begin_call ds nxt th p) = Some s' \<and>
           c_pc s' = C_done \<and> c_ret s' = Some (fn (m_callable d0) p) \<and> \<not> fault s' \<and>
           trace s' = [(Caller, Op_invoke p (fn (m_callable d0) p), m_lock d0)] \<and>
           delegates s' = ds \<and> msgs s' = Map.empty \<and> queue s' = [] \<and> next_addr s' = nxt \<and>
           step rd fn (Run Caller) s' = None \<and> step rd fn (Run Target) s' = None \<and>
           step rd fn Timeout s' = None"
  using assms
  by (simp add: step_def caller_start_def begin_call_def)

text \<open>Squaring 5 with no target thread returns 25.\<close>

theorem no_thread_invokes_directly_witness:
  "ex_sync_heap 3 = Some ex_sync_delegate \<and> m_thread ex_sync_delegate = null \<and>
   (\<exists>s'. run GetParams ex_fn [Run Caller] (begin_call ex_sync_heap 4 3 5) = Some s' \<and>
      c_pc s' = C_done \<and> c_ret s' = Some 25 \<and>
      delegates s' = ex_sync_heap \<and> msgs s' = Map.empty \<and> queue s' = [])"
proof -
  have t: "m_thread ex_sync_delegate = null"
    by (simp add: ex_sync_delegate_def DelegateAsyncWait_def Bind_def)
  have h: "ex_sync_heap 3 = Some ex_sync_delegate" by (simp add: ex_sync_heap_def)
  from no_thread_invokes_directly[where ds = ex_sync_heap and fn = ex_fn and nxt = 4 and p = 5,
      OF h t]
  show ?thesis using t h by (auto simp: ex_fn_def)
qed

section \<open>DelegateInvoke\<close>

text \<open>
  When the target thread takes a message whose clone is unlocked, \<open>DelegateInvoke\<close>
  runs to the end of its guarded block. If the reference count it reads under the lock is
  2, it invokes the callable with the locals it declared for the arguments, stores the
  result in the clone, raises the signal and then decrements the count, in that order. If
  the count is not 2, it makes no invocation, stores nothing and raises no signal, and
  decrements the count.
\<close>

lemma delegate_invoke_order:
  assumes "\<not> fault s" "t_pc s = T_idle" "queue s = (thr, m) # q" "msgs s m = Some mg"
    and "delegates s (msg_invoker mg) = Some cl" "m_lock cl = Unlocked"
  shows "(m_refCnt cl = 2 \<longrightarrow>
           (\<exists>s' cl'.
              run rd fn [Run Target, Run Target, Run Target, Run Target, Run Target, Run Target] s
                = Some s' \<and>
              trace s' = trace s @
                [(Target, Op_get_param, Unlocked), (Target, Op_lock, Unlocked),
                 (Target, Op_test_ref 2, Held Target),
                 (Target, Op_invoke (rd (msg_param mg)) (fn (m_callable cl) (rd (msg_param mg))), Held Target),
                 (Target, Op_store_ret, Held Target), (Target, Op_signal, Held Target),
                 (Target, Op_dec_ref 1, Held Target), (Target, Op_unlock, Held Target)] \<and>
              delegates s' (msg_invoker mg) = Some cl' \<and>
              m_retVal cl' = Some (fn (m_callable cl) (rd (msg_param mg))) \<and>
              m_sema cl' = sema_Signal (m_sema cl) \<and>
              m_refCnt cl' = 1 \<and> m_lock cl' = Unlocked \<and>
              t_pc s' = T_delete \<and> \<not> t_deleteData s')) \<and>
         (m_refCnt cl \<noteq> 2 \<longrightarrow>
           (\<exists>s' cl'.
              run rd fn [Run Target, Run Target, Run Target, Run Target, Run Target] s = Some s' \<and>
              trace s' = trace s @
                [(Target, Op_get_param, Unlocked), (Target, Op_lock, Unlocked),
                 (Target, Op_test_ref (m_refCnt cl), Held Target),
                 (Target, Op_dec_ref (m_refCnt cl - 1), Held Target),
                 (Target, Op_unlock, Held Target)] \<and>
              delegates s' (msg_invoker mg) = Some cl' \<and>
              m_retVal cl' = m_retVal cl \<and> m_sema cl' = m_sema cl \<and>
              m_refCnt cl' = m_refCnt cl - 1 \<and> m_lock cl' = Unlocked \<and>
              t_pc s' = T_delete \<and> t_deleteData s' = (m_refCnt cl = 1)))"
  using assms
  by (simp add: step_def target_deliver_def target_lock_def target_check_def target_signal_def
      target_dec_def target_unlock_def lock_at_def)

text \<open>
  With the locals of \<open>GetParams\<close>: right after the dispatch the target invokes the
  callable on the argument held by the message; after the caller has timed out and made
  its decrement the target skips the invocation and is the one to delete.
\<close>

lemma delegate_invoke_order_example:
  "(\<exists>s' cl'.
      run GetParams ex_fn [Run Target, Run Target, Run Target, Run Target, Run Target, Run Target]
        ex_dispatched = Some s' \<and>
      trace s' = trace ex_dispatched @
        [(Target, Op_get_param, Unlocked), (Target, Op_lock, Unlocked),
         (Target, Op_test_ref 2, Held Target), (Target, Op_invoke 5 25, Held Target),
         (Target, Op_store_ret, Held Target), (Target, Op_signal, Held Target),
         (Target, Op_dec_ref 1, Held Target), (Target, Op_unlock, Held Target)] \<and>
      delegates s' 4 = Some cl' \<and> m_retVal cl' = Some 25 \<and>
      m_sema cl' = \<lparr>created = True, signals = Suc 0\<rparr> \<and> m_refCnt cl' = 1 \<and>
      m_lock cl' = Unlocked \<and> t_pc s' = T_delete \<and> \<not> t_deleteData s') \<and>
   (\<exists>s' cl'.
      run GetParams ex_fn [Run Target, Run Target, Run Target, Run Target, Run Target] ex_abandoned
        = Some s' \<and>
      trace s' = trace ex_abandoned @
        [(Target, Op_get_param, Unlocked), (Target, Op_lock, Unlocked),
         (Target, Op_test_ref 1, Held Target), (Target, Op_dec_ref 0, Held Target),
         (Target, Op_unlock, Held Target)] \<and>
      delegates s' 4 = Some cl' \<and> m_retVal cl' = None \<and>
      m_sema cl' = \<lparr>created = True, signals = 0\<rparr> \<and> m_refCnt cl' = 0 \<and>
      m_lock cl' = Unlocked \<and> t_pc s' = T_delete \<and> t_deleteData s')"
proof -
  have a: "\<not> fault ex_dispatched" "t_pc ex_dispatched = T_idle"
    "queue ex_dispatched = (9, 5) # []" "msgs ex_dispatched 5 = Some ex_msg"
    "delegates ex_dispatched (msg_invoker ex_msg) = Some ex_clone" "m_lock ex_clone = Unlocked"
    by (simp_all add: ex_dispatched_state ex_msg_fields ex_clone_fields)
  have b: "\<not> fault ex_abandoned" "t_pc ex_abandoned = T_idle"
    "queue ex_abandoned = (9, 5) # []" "msgs ex_abandoned 5 = Some ex_msg"
    "delegates ex_abandoned (msg_invoker ex_msg) = Some (ex_clone\<lparr>m_refCnt := 1\<rparr>)"
    "m_lock (ex_clone\<lparr>m_refCnt := 1\<rparr>) = Unlocked"
    by (simp_all add: ex_abandoned_state ex_msg_fields ex_clone_fields)
  from delegate_invoke_order[where fn = ex_fn and rd = GetParams, OF a]
    delegate_invoke_order[where fn = ex_fn and rd = GetParams, OF b]
  show ?thesis
    by (simp add: ex_msg_fields ex_clone_fields ex_fn_def sema_Signal_def GetParams_def
        del: run.simps)
qed

text \<open>
  C6. The claim is that \<open>DelegateInvoke\<close>, when it reads the reference count 2, invokes
  the callable with the argument snapshot of the envelope.
  \<open>DelegateMemberAsyncWait<RetType(TClass(Param1, Param2, Param3, Param4, Param5))>\<close>
  breaks it, by the declaration \<open>Param4 param5\<close> that also breaks C3: with
  \<open>Param4 = bool\<close> and \<open>Param5 = int\<close> the message holds (1, 2, 3, true, 5), the
  reference count read is 2, and the callable is invoked with (1, 2, 3, true, 1). The order
  of the invocation, the store, the signal and the decrement is as the claim says.
\<close>

theorem member5_invokes_with_converted_argument:
  "msgs ex_dispatched5 5 = Some \<lparr>msg_invoker = 4, msg_param = (1, 2, 3, True, 5)\<rparr> \<and>
   queue ex_dispatched5 = [(9, 5)] \<and>
   run ex_rd5 ex_fn5 [Run Target, Run Target, Run Target, Run Target, Run Target, Run Target]
     ex_dispatched5 = Some ex_invoked5 \<and>
   trace ex_invoked5 = trace ex_dispatched5 @
     [(Target, Op_get_param, Unlocked), (Target, Op_lock, Unlocked),
      (Target, Op_test_ref 2, Held Target),
      (Target, Op_invoke (1, 2, 3, True, 1) 1, Held Target),
      (Target, Op_store_ret, Held Target), (Target, Op_signal, Held Target),
      (Target, Op_dec_ref 1, Held Target), (Target, Op_unlock, Held Target)]"
  using ex_invoked5_run by (simp add: ex_dispatched5_state ex_invoked5_state)

section \<open>Locking\<close>

text \<open>
  C7, as stated: no shared mutable field is touched outside the lock and every mutation of
  the reference count happens under it. It fails: in the first schedule the caller stores
  2 into the clone's \<open>m_refCnt\<close> without the lock, and it waits on the clone's semaphore
  and reads the clone's \<open>m_retVal\<close> while the target thread holds the lock.
\<close>

theorem unlocked_accesses_counterexample:
  "run GetParams ex_fn sched_success (begin_call ex_heap 4 3 5) = Some ex_success \<and>
   outside_lock (trace ex_success) =
     [(Caller, Op_set_ref 2, Unlocked), (Caller, Op_wait 1000 True, Held Target),
      (Caller, Op_read_ret, Held Target)]"
  using ex_success_run by (simp add: ex_success_state outside_lock_def)

text \<open>
  C7, amended: in every state reached by a dispatched call, each test of the reference
  count, invocation, store of the result, signal, decrement and release of the lock was
  made by the thread that held the clone's lock; each delete was made when the lock was
  free; every other operation (among them the initial store \<open>m_refCnt = 2\<close>, the wait on
  the semaphore and the caller's read of the result slot) was made by a thread that did
  not hold the lock.
\<close>

theorem lock_discipline_of_a_call:
  assumes "ds th = Some d0" "ds nxt = None" "m_thread d0 \<noteq> null"
    and "run rd fn evs (begin_call ds nxt th p) = Some s"
  shows "list_all lock_discipline (trace s)"
proof -
  from run_begin[OF assms]
  consider "s = begin_call ds nxt th p" | "call_inv rd fn ds d0 th nxt p s" by blast
  then show ?thesis
  proof cases
    case 1
    then show ?thesis by (simp add: begin_call_def)
  next
    case 2
    from inv_ops[OF 2] show ?thesis by simp
  qed
qed

text \<open>Both schedules obey the discipline.\<close>

theorem lock_discipline_of_a_call_witness:
  "list_all lock_discipline (trace ex_success) \<and> list_all lock_discipline (trace ex_timeout) \<and>
   length (trace ex_success) = 21 \<and> length (trace ex_timeout) = 17"
  using lock_discipline_of_a_call[OF ex_this ex_fresh ex_thread ex_success_run]
    lock_discipline_of_a_call[OF ex_this ex_fresh ex_thread ex_timeout_run]
  by (simp add: ex_success_state ex_timeout_state)

section \<open>Equality\<close>

text \<open>
  C8, as stated: \<open>operator==\<close> returns true exactly when the two delegates reference the
  same object and the same function. It fails: two delegates bound to the same object and
  the same member function, for different target threads, compare unequal.
\<close>

theorem op_eq_same_target_other_thread_counterexample:
  "m_callable ex_delegate = m_callable ex_delegate_other_thread \<and>
   \<not> op_eq ex_delegate ex_delegate_other_thread"
  by (simp add: ex_delegate_def ex_delegate_other_thread_def op_eq_def callable_eq_def
      DelegateAsyncWait_def Bind_def)

text \<open>
  C8, amended: \<open>operator==\<close> on two delegates of the same specialisation returns true
  exactly when they have the same target thread and the same bound target; for two member
  delegates that is the same thread, the same object and the same member function, for two
  free delegates the same thread and the same function. A member delegate never equals a
  free one.
\<close>

theorem op_eq_thread_and_target:
  "op_eq a b = (m_thread a = m_thread b \<and> m_callable a = m_callable b) \<and>
   op_eq (a\<lparr>m_callable := MemberFn oa fa\<rparr>) (b\<lparr>m_callable := MemberFn ob fb\<rparr>) =
     (m_thread a = m_thread b \<and> oa = ob \<and> fa = fb) \<and>
   op_eq (a\<lparr>m_callable := FreeFn fa\<rparr>) (b\<lparr>m_callable := FreeFn fb\<rparr>) =
     (m_thread a = m_thread b \<and> fa = fb) \<and>
   \<not> op_eq (a\<lparr>m_callable := MemberFn oa fa\<rparr>) (b\<lparr>m_callable := FreeFn fb\<rparr>)"
  by (simp add: op_eq_def callable_eq_def)

section \<open>Copies and clones\<close>

text \<open>
  C9, as stated: a copy takes over only the thread pointer, the timeout and the success
  flag, the per-call state of a clone is fresh, and concurrent calls through the same
  delegate share no per-call state. It fails. In the first schedule of two calls the first
  call, whose argument is 5 and whose callable computed 25, returns 36, the result of the
  second call: both calls write the success flag and the result holder of the delegate
  they are called through. And the clone of a delegate that holds the result 36 of an
  earlier call starts with that result and that success flag, and with the binding.
\<close>

theorem concurrent_calls_share_result_holder_counterexample:
  "run2 GetParams ex_fn sched_two_calls (begin_calls ex_heap 4 3 5 6) = Some ex_two_calls \<and>
   c_pc (fst ex_two_calls) = C_done \<and> c_p1 (fst ex_two_calls) = 5 \<and>
   Op_wait 1000 True \<in> set (ops_of Caller (trace (fst ex_two_calls))) \<and>
   Op_invoke 5 25 \<in> set (ops_of Target (trace (fst ex_two_calls))) \<and>
   c_ret (fst ex_two_calls) = Some 36 \<and>
   delegates (fst ex_two_calls) 3 = Some (ex_delegate\<lparr>m_success := True, m_retVal := Some 36\<rparr>) \<and>
   m_retVal (Clone (ex_delegate\<lparr>m_success := True, m_retVal := Some 36\<rparr>)) = Some 36 \<and>
   m_success (Clone (ex_delegate\<lparr>m_success := True, m_retVal := Some 36\<rparr>)) \<and>
   m_callable (Clone (ex_delegate\<lparr>m_success := True, m_retVal := Some 36\<rparr>)) = MemberFn 10 7"
  using ex_two_calls_run
  by (simp add: ex_two_calls_state Clone_def copy_ctor_def Swap_def ex_fields)

text \<open>
  C9, amended: a copy-constructed delegate has reference count 0, a new semaphore and a
  new lock whatever those of the source are, and the binding, thread pointer, timeout,
  success flag and result holder of the source; \<open>Clone\<close> is the copy constructor. The
  clone of a call is a new object with reference count 2 and a created, reset semaphore.
  In every state that two concurrent calls through the same delegate reach, in any
  interleaving of their steps: no fault has occurred; each call that has begun has a clone
  other than the delegate, as its own two threads left it; the two clones and the two
  messages are different objects; and no step of one call changes the clone or the
  message of the other. This does not extend to the success flag and the result holder of
  the delegate itself, which are one pair of fields for all calls through it.
\<close>

theorem concurrent_calls_work_on_own_clones:
  assumes "ds th = Some d0" "\<forall>a\<ge>nxt. ds a = None" "m_thread d0 \<noteq> null"
    and "run2 rd fn ces (begin_calls ds nxt th p1 p2) = Some (a, b)"
  shows "m_refCnt (copy_ctor rhs) = 0 \<and> m_sema (copy_ctor rhs) = Semaphore \<and>
         m_lock (copy_ctor rhs) = Unlocked \<and>
         m_thread (copy_ctor rhs) = m_thread rhs \<and> m_timeout (copy_ctor rhs) = m_timeout rhs \<and>
         m_success (copy_ctor rhs) = m_success rhs \<and>
         m_callable (copy_ctor rhs) = m_callable rhs \<and> m_retVal (copy_ctor rhs) = m_retVal rhs \<and>
         copy_ctor (rhs\<lparr>m_refCnt := n, m_sema := sm, m_lock := lk\<rparr>) = copy_ctor rhs \<and>
         Clone rhs = copy_ctor rhs \<and>
         delegates (caller_start fn (begin_call ds nxt th p1)) nxt =
           Some ((Clone d0)\<lparr>m_refCnt := 2, m_sema := \<lparr>created = True, signals = 0\<rparr>\<rparr>) \<and>
         \<not> fault a \<and> \<not> fault b \<and> delegates a = delegates b \<and> msgs a = msgs b \<and>
         (c_pc a \<noteq> C_start \<longrightarrow> c_delegate a \<noteq> th \<and> own_clone a) \<and>
         (c_pc b \<noteq> C_start \<longrightarrow> c_delegate b \<noteq> th \<and> own_clone b) \<and>
         (c_pc a \<noteq> C_start \<and> c_pc b \<noteq> C_start \<longrightarrow>
            c_delegate a \<noteq> c_delegate b \<and> c_msg a \<noteq> c_msg b) \<and>
         (\<forall>e a' b'. step2 rd fn (Second, e) (a, b) = Some (a', b') \<longrightarrow> c_pc a \<noteq> C_start \<longrightarrow>
            delegates a' (c_delegate a) = delegates a (c_delegate a) \<and>
            msgs a' (c_msg a) = msgs a (c_msg a)) \<and>
         (\<forall>e a' b'. step2 rd fn (First, e) (a, b) = Some (a', b') \<longrightarrow> c_pc b \<noteq> C_start \<longrightarrow>
            delegates b' (c_delegate b) = delegates b (c_delegate b) \<and>
            msgs b' (c_msg b) = msgs b (c_msg b))"
proof -
  have lt: "th < nxt"
  proof (rule ccontr)
    assume "\<not> th < nxt"
    then have "nxt \<le> th" by simp
    with assms(2) have "ds th = None" by simp
    with assms(1) show False by simp
  qed
  have "calls_inv rd d0 th p1 p2 (begin_calls ds nxt th p1 p2)"
    using assms(1) lt by (rule calls_inv_begin)
  from calls_inv_run[OF this assms(3,4)]
  have inv: "calls_inv rd d0 th p1 p2 (a, b)" .
  have copy: "m_refCnt (copy_ctor rhs) = 0 \<and> m_sema (copy_ctor rhs) = Semaphore \<and>
         m_lock (copy_ctor rhs) = Unlocked \<and>
         m_thread (copy_ctor rhs) = m_thread rhs \<and> m_timeout (copy_ctor rhs) = m_timeout rhs \<and>
         m_success (copy_ctor rhs) = m_success rhs \<and>
         m_callable (copy_ctor rhs) = m_callable rhs \<and> m_retVal (copy_ctor rhs) = m_retVal rhs \<and>
         copy_ctor (rhs\<lparr>m_refCnt := n, m_sema := sm, m_lock := lk\<rparr>) = copy_ctor rhs \<and>
         Clone rhs = copy_ctor rhs"
    by (simp add: copy_ctor_def Swap_def Clone_def)
  have disp: "delegates (caller_start fn (begin_call ds nxt th p1)) nxt =
           Some ((Clone d0)\<lparr>m_refCnt := 2, m_sema := \<lparr>created = True, signals = 0\<rparr>\<rparr>)"
    using assms(1,3)
    by (simp add: caller_start_def begin_call_def Clone_def copy_ctor_def Swap_def
        Semaphore_def sema_Create_def sema_Reset_def)
  from copy disp calls_inv_facts[OF inv] calls_no_interference[OF inv assms(3), of fn]
  show ?thesis by blast
qed

text \<open>
  Two calls in flight through the delegate at address 3: the clones at 4 and at 6, each
  with reference count 2 and locked by its own target invocation.
\<close>

theorem concurrent_calls_work_on_own_clones_witness:
  "run2 GetParams ex_fn sched_in_flight (begin_calls ex_heap 4 3 5 6) = Some ex_in_flight \<and>
   m_refCnt (copy_ctor (ex_delegate\<lparr>m_refCnt := 2\<rparr>)) = 0 \<and>
   c_delegate (fst ex_in_flight) = 4 \<and> c_delegate (snd ex_in_flight) = 6 \<and>
   own_clone (fst ex_in_flight) \<and> own_clone (snd ex_in_flight) \<and>
   delegates (fst ex_in_flight) 4 = Some (ex_clone\<lparr>m_lock := Held Target\<rparr>) \<and>
   delegates (fst ex_in_flight) 6 = Some (ex_clone\<lparr>m_lock := Held Target\<rparr>) \<and>
   \<not> fault (fst ex_in_flight) \<and> \<not> fault (snd ex_in_flight)"
proof -
  have r: "run2 GetParams ex_fn sched_in_flight (begin_calls ex_heap 4 3 5 6) =
             Some (fst ex_in_flight, snd ex_in_flight)"
    using ex_in_flight_run by simp
  from concurrent_calls_work_on_own_clones[where rhs = "ex_delegate\<lparr>m_refCnt := 2\<rparr>",
      OF ex_this ex_unused ex_thread r]
  have "m_refCnt (copy_ctor (ex_delegate\<lparr>m_refCnt := 2\<rparr>)) = 0 \<and>
        \<not> fault (fst ex_in_flight) \<and> \<not> fault (snd ex_in_flight) \<and>
        (c_pc (fst ex_in_flight) \<noteq> C_start \<longrightarrow> own_clone (fst ex_in_flight)) \<and>
        (c_pc (snd ex_in_flight) \<noteq> C_start \<longrightarrow> own_clone (snd ex_in_flight))"
    by blast
  then show ?thesis
    using ex_in_flight_run by (simp add: ex_in_flight_state)
qed

section \<open>Frame of a call\<close>

text \<open>
  C10. In every state reached by a dispatched call, the calling delegate is still
  allocated and its thread pointer, timeout, binding, reference count, semaphore and lock
  are those it had before the call; every delegate other than the caller and the clone is
  unchanged.
\<close>

theorem invoke_changes_only_success_and_result:
  assumes "ds th = Some d0" "ds nxt = None" "m_thread d0 \<noteq> null"
    and "run rd fn evs (begin_call ds nxt th p) = Some s"
  shows "\<exists>this. delegates s th = Some this \<and>
           m_thread this = m_thread d0 \<and> m_timeout this = m_timeout d0 \<and>
           m_callable this = m_callable d0 \<and> m_refCnt this = m_refCnt d0 \<and>
           m_sema this = m_sema d0 \<and> m_lock this = m_lock d0 \<and>
           (\<forall>a. a \<noteq> th \<longrightarrow> a \<noteq> nxt \<longrightarrow> delegates s a = ds a)"
proof -
  from run_begin[OF assms]
  consider "s = begin_call ds nxt th p" | "call_inv rd fn ds d0 th nxt p s" by blast
  then show ?thesis
  proof cases
    case 1
    with assms(1) show ?thesis by (simp add: begin_call_def)
  next
    case 2
    from inv_this[OF 2] inv_frame[OF 2] show ?thesis
      by (auto simp: this_ok_def)
  qed
qed

text \<open>After the first schedule only the success flag and the result holder differ.\<close>

theorem invoke_changes_only_success_and_result_witness:
  "delegates ex_success 3 = Some (ex_delegate\<lparr>m_success := True, m_retVal := Some 25\<rparr>) \<and>
   delegates ex_success 7 = ex_heap 7"
proof -
  from invoke_changes_only_success_and_result[OF ex_this ex_fresh ex_thread ex_success_run]
  obtain this where "delegates ex_success 3 = Some this"
    and "m_thread this = m_thread ex_delegate \<and> m_timeout this = m_timeout ex_delegate \<and>
         m_callable this = m_callable ex_delegate \<and> m_refCnt this = m_refCnt ex_delegate"
    and "\<forall>a. a \<noteq> 3 \<longrightarrow> a \<noteq> 4 \<longrightarrow> delegates ex_success a = ex_heap a"
    by blast
  then show ?thesis
    by (simp add: ex_fields ex_success_state)
qed

end
